theory Spec2Isabelle
  imports Complex_Main "HOL-Library.Word"
begin

section \<open>Strings of the host language\<close>

text \<open>
  A TypeScript string is a sequence of UTF-16 code units; \<open>length\<close>, \<open>split\<close>,
  \<open>trim\<close> and \<open>endsWith\<close> all work on code units. A string literal of the source
  that is plain ASCII is written with \<open>js\<close>.
\<close>

type_synonym code_unit = "16 word"
type_synonym jsstring = "code_unit list"

definition js :: "string \<Rightarrow> jsstring" where
  "js s = map of_char s"

definition LF :: code_unit where
  "LF = 10"

definition CR :: code_unit where
  "CR = 13"

text \<open>
  \<open>String.prototype.trim\<close> removes the WhiteSpace and LineTerminator code points from
  both ends: TAB, LF, VT, FF, CR, SP, NBSP, U+1680, U+2000..U+200A, U+2028, U+2029,
  U+202F, U+205F, U+3000 and U+FEFF. All of them are single code units.
\<close>

definition is_js_space :: "code_unit \<Rightarrow> bool" where
  "is_js_space c \<longleftrightarrow>
     c \<in> {9, 10, 11, 12, 13, 32, 160, 5760, 8232, 8233, 8239, 8287, 12288, 65279}
     \<or> (8192 \<le> c \<and> c \<le> 8202)"

definition trim :: "jsstring \<Rightarrow> jsstring" where
  "trim s = rev (dropWhile is_js_space (rev (dropWhile is_js_space s)))"

text \<open>
  \<open>text.split(/\r?\n/)\<close>: the separator is a line feed, together with the carriage
  return right before it when there is one. A carriage return that no line feed follows
  stays in its line. The result always has at least one element.
\<close>

fun split_lines :: "jsstring \<Rightarrow> jsstring list" where
  "split_lines [] = [[]]"
| "split_lines [c] = (if c = LF then [[], []] else [[c]])"
| "split_lines (c # d # cs) =
     (if c = LF then [] # split_lines (d # cs)
      else if c = CR \<and> d = LF then [] # split_lines cs
      else (case split_lines (d # cs) of
              [] \<Rightarrow> [[c]]
            | l # ls \<Rightarrow> (c # l) # ls))"

text \<open>\<open>Array.prototype.join("\n")\<close>.\<close>

fun join_lines :: "jsstring list \<Rightarrow> jsstring" where
  "join_lines [] = []"
| "join_lines [l] = l"
| "join_lines (l # m # ls) = l @ LF # join_lines (m # ls)"

text \<open>\<open>block.endsWith("\n")\<close>.\<close>

definition endsWith_LF :: "jsstring \<Rightarrow> bool" where
  "endsWith_LF b \<longleftrightarrow> b \<noteq> [] \<and> last b = LF"

definition delimiter :: jsstring where
  "delimiter = js ''---''"

section \<open>The frontmatter block\<close>

text \<open>
  The \<open>for\<close> loop of \<open>extractFrontmatterBlock\<close>, entered with \<open>i = 1\<close>: the first
  line from index \<open>i\<close> on that trims to the delimiter closes the block; the block is
  \<open>lines.slice(0, i + 1).join("\n")\<close>, and a line feed is appended unless the block
  already ends with one.
\<close>

function scan_closing :: "jsstring list \<Rightarrow> nat \<Rightarrow> jsstring option" where
  "scan_closing lines i =
     (if i < length lines then
        (if trim (lines ! i) = delimiter then
           (let block = join_lines (take (i + 1) lines)
            in Some (if \<not> endsWith_LF block then block @ [LF] else block))
         else scan_closing lines (i + 1))
      else None)"
  by pat_completeness auto
termination
  by (relation "measure (\<lambda>(lines, i). length lines - i)") auto

declare scan_closing.simps [simp del]

definition extractFrontmatterBlock :: "jsstring \<Rightarrow> jsstring option" where
  "extractFrontmatterBlock text =
     (let lines = split_lines text in
      if length lines = 0 then None
      else if trim (lines ! 0) \<noteq> delimiter then None
      else scan_closing lines 1)"

text \<open>\<open>extractFrontmatterBlock(raw) ?? ""\<close>, the content \<open>wipeTargetNote\<close> writes.\<close>

definition preservedFrontmatter :: "jsstring \<Rightarrow> jsstring" where
  "preservedFrontmatter raw =
     (case extractFrontmatterBlock raw of None \<Rightarrow> [] | Some block \<Rightarrow> block)"

section \<open>The plugin and the part of the host it touches\<close>

type_synonym path = string

text \<open>What \<open>vault.getAbstractFileByPath\<close> can find at a path: a file with its content, or a folder.\<close>

datatype vault_entry = TFile jsstring | TFolder

text \<open>
  A Markdown view of the workspace: its file (if any), the text of its editor (if it has
  one), and what its optional \<open>setViewData\<close> method does when called.
\<close>

datatype setViewData_kind = Absent | Works | Throws

record markdown_view =
  view_file :: "path option"
  view_editor :: "jsstring option"
  view_setViewData :: setViewData_kind
  view_history_cleared :: bool

text \<open>The interface \<open>SessionState\<close>.\<close>

record SessionState =
  targetPath :: path
  startedAt :: int
  durationMs :: int
  idleCutoffMs :: int
  endsAt :: int
  docLength :: nat

text \<open>The notices shown to the user, one constructor for each message of \<open>main.ts\<close>.\<close>

datatype notice =
    Already_running
  | Open_a_note
  | Armed real
  | Session_complete
  | Note_wiped
  | Failed_to_wipe

datatype console_entry = Console_error | Console_debug

text \<open>The class tokens of the overlay element; \<open>Progress n\<close> is the token \<open>progress-n\<close>.\<close>

datatype css_class = Dangerous_overlay | Is_visible | Progress int

text \<open>
  The text of the status bar item is \<open>Dangerous mode idle: \<close> followed by a number of
  milliseconds shown as seconds with one decimal; the model keeps the milliseconds.
\<close>

datatype status_text = Idle_remaining int

text \<open>
  The two awaits of a wipe: \<open>vault.read(file)\<close>, and \<open>vault.modify(file, preserved)\<close>.
  A suspended wipe is kept as the await it is waiting at.
\<close>

datatype wipe_task = AwaitRead path | AwaitModify path jsstring

datatype io_call = VaultRead path | VaultModify path jsstring

text \<open>
  The fields of \<open>DangerousModePlugin\<close>, followed by the host state it reads and writes:
  the \<open>dangerous-no-select\<close> class of the document body, the vault, the Markdown leaves of
  the workspace, the notices and console entries produced so far, the vault calls issued so
  far, the suspended wipes, the start flows waiting for the duration dialog, and the next
  handle \<open>setInterval\<close> will return.
\<close>

record plugin =
  active :: bool
  targetFile :: "path option"
  session :: "SessionState option"
  lastInsertAt :: int
  idleTicker :: "nat option"
  statusEl :: "status_text option"
  idleWarnFired :: bool
  overlayEl :: "css_class list option"
  overlayLevel :: int
  wiping :: bool
  noSelect :: bool
  vault :: "path \<Rightarrow> vault_entry option"
  leaves :: "markdown_view list"
  notices :: "notice list"
  console :: "console_entry list"
  io_calls :: "io_call list"
  pending :: "wipe_task list"
  picking :: "markdown_view list"
  next_timer :: nat

definition DEFAULT_IDLE_CUTOFF_MS :: int where
  "DEFAULT_IDLE_CUTOFF_MS = 5000"

definition OVERLAY_DELAY_MS :: int where
  "OVERLAY_DELAY_MS = 2000"

definition clamp :: "'a::linorder \<Rightarrow> 'a \<Rightarrow> 'a \<Rightarrow> 'a" where
  "clamp n lo hi = max lo (min hi n)"

definition notify :: "notice \<Rightarrow> plugin \<Rightarrow> plugin" where
  "notify n s = s\<lparr>notices := notices s @ [n]\<rparr>"

subsection \<open>The overlay\<close>

definition classList_remove :: "css_class \<Rightarrow> css_class list \<Rightarrow> css_class list" where
  "classList_remove c cl = removeAll c cl"

definition classList_add :: "css_class \<Rightarrow> css_class list \<Rightarrow> css_class list" where
  "classList_add c cl = (if c \<in> set cl then cl else cl @ [c])"

definition classList_toggle :: "css_class \<Rightarrow> bool \<Rightarrow> css_class list \<Rightarrow> css_class list" where
  "classList_toggle c force cl = (if force then classList_add c cl else classList_remove c cl)"

definition ensureOverlay :: "plugin \<Rightarrow> plugin" where
  "ensureOverlay s =
     (case overlayEl s of
        Some el \<Rightarrow> s
      | None \<Rightarrow> s\<lparr>overlayEl := Some [Dangerous_overlay], overlayLevel := 0\<rparr>)"

text \<open>\<open>Math.round\<close> is the nearest integer, a half rounded up: \<open>round\<close> of HOL.\<close>

definition setOverlayProgress :: "real \<Rightarrow> plugin \<Rightarrow> plugin" where
  "setOverlayProgress p s =
     (case overlayEl s of
        None \<Rightarrow> s
      | Some el \<Rightarrow>
          (let level = clamp (round (p * 10)) 0 10 in
           if level = overlayLevel s then s
           else s\<lparr>overlayEl :=
                     Some (classList_add (Progress level)
                            (classList_remove (Progress (overlayLevel s)) el)),
                   overlayLevel := level\<rparr>))"

definition setOverlayVisible :: "bool \<Rightarrow> plugin \<Rightarrow> plugin" where
  "setOverlayVisible v s =
     (case overlayEl s of
        None \<Rightarrow> s
      | Some el \<Rightarrow> s\<lparr>overlayEl := Some (classList_toggle Is_visible v el)\<rparr>)"

subsection \<open>Ending a session\<close>

definition endSession :: "plugin \<Rightarrow> plugin" where
  "endSession s =
     s\<lparr>active := False, targetFile := None, session := None, idleTicker := None,
       statusEl := None, overlayEl := None, noSelect := False\<rparr>"

subsection \<open>The wipe\<close>

text \<open>
  \<open>wipeTargetNote\<close> up to its first await: the path of the file to read, or \<open>None\<close>
  when it returns at once (no session, or no file at the target path).
\<close>

definition wipeTargetNote_begin :: "plugin \<Rightarrow> path option" where
  "wipeTargetNote_begin s =
     (case session s of
        None \<Rightarrow> None
      | Some ss \<Rightarrow>
          (case vault s (targetPath ss) of
             Some (TFile raw) \<Rightarrow> Some (targetPath ss)
           | Some TFolder \<Rightarrow> None
           | None \<Rightarrow> None))"

text \<open>The \<open>finally\<close> block of \<open>handleIdleTimeout\<close>.\<close>

definition finally_block :: "plugin \<Rightarrow> plugin" where
  "finally_block s = (endSession s)\<lparr>wiping := False\<rparr>"

text \<open>The end of the \<open>try\<close> block, and the \<open>catch\<close> block, each followed by \<open>finally\<close>.\<close>

definition wipe_done :: "plugin \<Rightarrow> plugin" where
  "wipe_done s = finally_block (notify Note_wiped s)"

definition wipe_failed :: "plugin \<Rightarrow> plugin" where
  "wipe_failed s =
     finally_block (notify Failed_to_wipe (s\<lparr>console := console s @ [Console_error]\<rparr>))"

text \<open>
  \<open>handleIdleTimeout\<close> up to its first suspension. When \<open>wipeTargetNote\<close> returns without
  any vault call, the rest of \<open>handleIdleTimeout\<close> runs as a microtask, before any other
  callback, so it is part of the same step.
\<close>

definition handleIdleTimeout :: "plugin \<Rightarrow> plugin" where
  "handleIdleTimeout s =
     (if \<not> active s \<or> wiping s then s
      else
        (let s1 = s\<lparr>wiping := True\<rparr> in
         case wipeTargetNote_begin s1 of
           None \<Rightarrow> wipe_done s1
         | Some file \<Rightarrow>
             s1\<lparr>io_calls := io_calls s1 @ [VaultRead file],
                pending := pending s1 @ [AwaitRead file]\<rparr>))"

text \<open>
  The loop over the Markdown leaves after the write. One view: \<open>setViewData\<close> is called on a
  view of the target file when the view has the method; a call that throws is logged with
  \<open>console.debug\<close>.
\<close>

definition push_view :: "path \<Rightarrow> jsstring \<Rightarrow> markdown_view \<Rightarrow> markdown_view \<times> console_entry list" where
  "push_view target preserved v =
     (if view_file v = Some target then
        (case view_setViewData v of
           Works \<Rightarrow> (v\<lparr>view_editor := Some preserved, view_history_cleared := True\<rparr>, [])
         | Throws \<Rightarrow> (v, [Console_debug])
         | Absent \<Rightarrow> (v, []))
      else (v, []))"

text \<open>
  The whole loop. Its condition reads \<open>this.session.targetPath\<close> outside the inner \<open>try\<close>:
  with a leaf to look at and no session left this is a TypeError, the result \<open>None\<close>.
\<close>

definition refresh_views :: "jsstring \<Rightarrow> plugin \<Rightarrow> plugin option" where
  "refresh_views preserved s =
     (if leaves s = [] then Some s
      else
        (case session s of
           None \<Rightarrow> None
         | Some ss \<Rightarrow>
             Some (s\<lparr>leaves := map (\<lambda>v. fst (push_view (targetPath ss) preserved v)) (leaves s),
                     console := console s
                        @ concat (map (\<lambda>v. snd (push_view (targetPath ss) preserved v)) (leaves s))\<rparr>)))"

text \<open>
  The vault answers the call the \<open>k\<close>-th suspended wipe waits for; \<open>ok\<close> is false when the
  call throws. A read also throws when no file is left at the path. A write that succeeds
  replaces the content of the file.
\<close>

definition io_done :: "nat \<Rightarrow> bool \<Rightarrow> plugin \<Rightarrow> plugin" where
  "io_done k ok s =
     (if k < length (pending s) then
        (let s0 = s\<lparr>pending := take k (pending s) @ drop (Suc k) (pending s)\<rparr> in
         case pending s ! k of
           AwaitRead file \<Rightarrow>
             (if ok then
                (case vault s0 file of
                   Some (TFile raw) \<Rightarrow>
                     (let preserved = preservedFrontmatter raw in
                      s0\<lparr>io_calls := io_calls s0 @ [VaultModify file preserved],
                         pending := pending s0 @ [AwaitModify file preserved]\<rparr>)
                 | Some TFolder \<Rightarrow> wipe_failed s0
                 | None \<Rightarrow> wipe_failed s0)
              else wipe_failed s0)
         | AwaitModify file preserved \<Rightarrow>
             (if ok then
                (let s1 = s0\<lparr>vault := (vault s0)(file \<mapsto> TFile preserved)\<rparr> in
                 case refresh_views preserved s1 of
                   None \<Rightarrow> wipe_failed s1
                 | Some s2 \<Rightarrow> wipe_done s2)
              else wipe_failed s0))
      else s)"

subsection \<open>The periodic evaluator\<close>

text \<open>The overlay part of the callback \<open>update\<close> of \<open>startIdleTicker\<close>.\<close>

definition tick_overlay :: "int \<Rightarrow> SessionState \<Rightarrow> plugin \<Rightarrow> plugin" where
  "tick_overlay idleMs ss s =
     (let overlayDelay = min OVERLAY_DELAY_MS (idleCutoffMs ss) in
      if idleMs \<ge> overlayDelay then
        (let denom = max 1 (idleCutoffMs ss - overlayDelay);
             p = clamp (real_of_int (idleMs - overlayDelay) / real_of_int denom) 0 1
         in setOverlayProgress p (setOverlayVisible True s))
      else setOverlayProgress 0 (setOverlayVisible False s))"

text \<open>The callback \<open>update\<close>, run when \<open>Date.now()\<close> is \<open>now\<close>.\<close>

definition ticker_update :: "int \<Rightarrow> plugin \<Rightarrow> plugin" where
  "ticker_update now s =
     (if \<not> active s then s
      else
        (case session s of
           None \<Rightarrow> s
         | Some ss \<Rightarrow>
             if now \<ge> endsAt ss then endSession (notify Session_complete s)
             else
               (let idleMs = now - lastInsertAt s;
                    remaining = idleCutoffMs ss - idleMs;
                    s1 = tick_overlay idleMs ss s
                in case statusEl s1 of
                     None \<Rightarrow> s1
                   | Some el \<Rightarrow>
                       if remaining > 0 then s1\<lparr>statusEl := Some (Idle_remaining remaining)\<rparr>
                       else handleIdleTimeout (s1\<lparr>statusEl := Some (Idle_remaining 0)\<rparr>))))"

definition startIdleTicker :: "int \<Rightarrow> plugin \<Rightarrow> plugin" where
  "startIdleTicker now s =
     (case session s of
        None \<Rightarrow> s
      | Some ss \<Rightarrow>
          ticker_update now (s\<lparr>idleTicker := Some (next_timer s), next_timer := next_timer s + 1\<rparr>))"

subsection \<open>The two insertion channels\<close>

text \<open>
  A CodeMirror \<open>ViewUpdate\<close>: the file of the editor the update belongs to (\<open>update.view\<close>),
  which the listener never reads; \<open>docChanged\<close>; and the changes \<open>iterChanges\<close> walks
  through, each with its ranges and its inserted text.
\<close>

record change =
  fromA :: nat
  toA :: nat
  fromB :: nat
  toB :: nat
  insertedText :: jsstring

record view_update =
  update_file :: "path option"
  docChanged :: bool
  changes :: "change list"

text \<open>The sum the callback of \<open>iterChanges\<close> builds in \<open>inserted\<close>.\<close>

definition count_inserted :: "change list \<Rightarrow> nat" where
  "count_inserted cs = fold (\<lambda>c inserted. inserted + length (insertedText c)) cs 0"

text \<open>
  The update listener. \<open>activeView\<close> is the result of
  \<open>workspace.getActiveViewOfType(MarkdownView)\<close> at the time of the update: the listener
  compares the path of that view with the target path, whatever editor the update belongs
  to.
\<close>

definition updateListener :: "int \<Rightarrow> markdown_view option \<Rightarrow> view_update \<Rightarrow> plugin \<Rightarrow> plugin" where
  "updateListener now activeView upd s =
     (if \<not> active s then s
      else
        (case session s of
           None \<Rightarrow> s
         | Some ss \<Rightarrow>
             (case activeView of
                None \<Rightarrow> s
              | Some view \<Rightarrow>
                  (case view_file view of
                     None \<Rightarrow> s
                   | Some p \<Rightarrow>
                       if p \<noteq> targetPath ss then s
                       else if \<not> docChanged upd then s
                       else if count_inserted (changes upd) > 0
                         then s\<lparr>lastInsertAt := now, idleWarnFired := False\<rparr>
                         else s))))"

text \<open>
  The handler of \<open>editor-change\<close>; \<open>editorValue\<close> is \<open>editor.getValue()\<close>. The field
  \<open>docLength\<close> is a number in every session the plugin creates, so \<open>prevLen\<close> is that field.
\<close>

definition editorChange :: "int \<Rightarrow> jsstring \<Rightarrow> markdown_view option \<Rightarrow> plugin \<Rightarrow> plugin" where
  "editorChange now editorValue view s =
     (if \<not> active s then s
      else
        (case session s of
           None \<Rightarrow> s
         | Some ss \<Rightarrow>
             (case view of
                None \<Rightarrow> s
              | Some v \<Rightarrow>
                  (case view_file v of
                     None \<Rightarrow> s
                   | Some p \<Rightarrow>
                       if p \<noteq> targetPath ss then s
                       else
                         (let newLen = length editorValue;
                              prevLen = docLength ss;
                              s1 = (if newLen > prevLen
                                    then s\<lparr>lastInsertAt := now, idleWarnFired := False\<rparr>
                                    else s)
                          in s1\<lparr>session := Some (ss\<lparr>docLength := newLen\<rparr>)\<rparr>)))))"

subsection \<open>Starting a session\<close>

text \<open>\<open>startSessionFlow\<close> up to the await on the duration dialog.\<close>

definition startSessionFlow :: "markdown_view option \<Rightarrow> plugin \<Rightarrow> plugin" where
  "startSessionFlow activeView s =
     (if active s then notify Already_running s
      else
        (case activeView of
           None \<Rightarrow> notify Open_a_note s
         | Some view \<Rightarrow>
             (case view_file view of
                None \<Rightarrow> notify Open_a_note s
              | Some p \<Rightarrow> s\<lparr>picking := picking s @ [view]\<rparr>)))"

text \<open>
  The rest of \<open>startSessionFlow\<close>, for a view with a file, once the dialog has answered
  \<open>minutes\<close>. \<open>now\<close> is the value of \<open>Date.now()\<close> that becomes \<open>startedAt\<close>, \<open>now'\<close> the
  one the first run of the evaluator reads.
\<close>

definition arm :: "int \<Rightarrow> int \<Rightarrow> real \<Rightarrow> path \<Rightarrow> jsstring option \<Rightarrow> plugin \<Rightarrow> plugin" where
  "arm now now' minutes p editorValue s =
     (let startedAt' = now;
          durationMs' = round (minutes * 60000);
          endsAt' = startedAt' + durationMs';
          idleCutoffMs' = DEFAULT_IDLE_CUTOFF_MS;
          s1 = s\<lparr>active := True, targetFile := Some p,
                 session := Some \<lparr>targetPath = p, startedAt = startedAt',
                    durationMs = durationMs', idleCutoffMs = idleCutoffMs', endsAt = endsAt',
                    docLength = (case editorValue of None \<Rightarrow> 0 | Some v \<Rightarrow> length v)\<rparr>,
                 lastInsertAt := startedAt',
                 statusEl := Some (Idle_remaining idleCutoffMs'),
                 idleWarnFired := False\<rparr>;
          s2 = ensureOverlay s1;
          s3 = s2\<lparr>noSelect := True\<rparr>;
          s4 = startIdleTicker now' s3
      in notify (Armed minutes) s4)"

text \<open>
  The dialog of the \<open>k\<close>-th waiting start flow answers: \<open>None\<close> for a cancelled dialog.
  The view is the one the flow found before the dialog opened, taken as it was then: the
  dialog is modal, and the model lets nothing change the view while it is open.
\<close>

definition duration_picked :: "nat \<Rightarrow> int \<Rightarrow> int \<Rightarrow> real option \<Rightarrow> plugin \<Rightarrow> plugin" where
  "duration_picked k now now' answer s =
     (if k < length (picking s) then
        (let view = picking s ! k;
             s0 = s\<lparr>picking := take k (picking s) @ drop (Suc k) (picking s)\<rparr>
         in case answer of
              None \<Rightarrow> s0
            | Some minutes \<Rightarrow>
                (case view_file view of
                   None \<Rightarrow> s0
                 | Some p \<Rightarrow> arm now now' minutes p (view_editor view) s0))
      else s)"

definition onunload :: "plugin \<Rightarrow> plugin" where
  "onunload s = endSession s"

text \<open>The field initialisers of the class, for any host state.\<close>

definition loaded :: "plugin \<Rightarrow> bool" where
  "loaded s \<longleftrightarrow>
     \<not> active s \<and> targetFile s = None \<and> session s = None \<and> lastInsertAt s = 0
     \<and> idleTicker s = None \<and> statusEl s = None \<and> \<not> idleWarnFired s \<and> overlayEl s = None
     \<and> overlayLevel s = 0 \<and> \<not> wiping s \<and> pending s = [] \<and> picking s = []"

subsection \<open>Callbacks as events\<close>

text \<open>
  All callbacks run on one event loop, one at a time. An event is one callback with what
  it reads from the host; a run is a sequence of events.
\<close>

datatype event =
    Tick int
  | Update int "markdown_view option" view_update
  | EditorChange int jsstring "markdown_view option"
  | StartCommand "markdown_view option"
  | DurationPicked nat int int "real option"
  | IoDone nat bool
  | Unload

fun step :: "plugin \<Rightarrow> event \<Rightarrow> plugin" where
  "step s (Tick now) = ticker_update now s"
| "step s (Update now activeView upd) = updateListener now activeView upd s"
| "step s (EditorChange now editorValue view) = editorChange now editorValue view s"
| "step s (StartCommand activeView) = startSessionFlow activeView s"
| "step s (DurationPicked k now now' answer) = duration_picked k now now' answer s"
| "step s (IoDone k ok) = io_done k ok s"
| "step s Unload = onunload s"

definition run :: "plugin \<Rightarrow> event list \<Rightarrow> plugin" where
  "run s es = foldl step s es"

text \<open>The events that are neither an answer of the vault nor a start or an unload.\<close>

fun tick_or_edit :: "event \<Rightarrow> bool" where
  "tick_or_edit (Tick now) = True"
| "tick_or_edit (Update now activeView upd) = True"
| "tick_or_edit (EditorChange now editorValue view) = True"
| "tick_or_edit e = False"

text \<open>The same, together with the answers of the vault.\<close>

fun tick_edit_or_io :: "event \<Rightarrow> bool" where
  "tick_edit_or_io (IoDone k ok) = True"
| "tick_edit_or_io e = tick_or_edit e"


text \<open>The number of \<open>vault.modify\<close> calls among the vault calls.\<close>

fun is_modify :: "io_call \<Rightarrow> bool" where
  "is_modify (VaultModify file content) = True"
| "is_modify (VaultRead file) = False"

definition writes :: "plugin \<Rightarrow> nat" where
  "writes s = length (filter is_modify (io_calls s))"

text \<open>
  The level the evaluator gives the overlay for an idle time: the argument it passes to
  \<open>setOverlayProgress\<close>, quantized as \<open>setOverlayProgress\<close> does.
\<close>

definition overlay_ratio :: "int \<Rightarrow> int \<Rightarrow> real" where
  "overlay_ratio cutoff idleMs =
     (let overlayDelay = min OVERLAY_DELAY_MS cutoff in
      if idleMs \<ge> overlayDelay then
        clamp (real_of_int (idleMs - overlayDelay) / real_of_int (max 1 (cutoff - overlayDelay))) 0 1
      else 0)"

definition overlay_level :: "int \<Rightarrow> int \<Rightarrow> int" where
  "overlay_level cutoff idleMs = clamp (round (overlay_ratio cutoff idleMs * 10)) 0 10"

text \<open>
  The number of evaluator runs, among those at the given times, that change the stored
  level: \<open>setOverlayProgress\<close> swaps the \<open>progress-n\<close> class of the overlay exactly when it
  stores a new level.
\<close>

fun emissions :: "plugin \<Rightarrow> int list \<Rightarrow> nat" where
  "emissions s [] = 0"
| "emissions s (now # ticks) =
     (if overlayLevel (ticker_update now s) \<noteq> overlayLevel s then 1 else 0)
     + emissions (ticker_update now s) ticks"

subsection \<open>Predicates on the state\<close>

text \<open>The evaluator can still change the overlay.\<close>

definition overlay_live :: "plugin \<Rightarrow> bool" where
  "overlay_live s \<longleftrightarrow> active s \<and> session s \<noteq> None \<and> overlayEl s \<noteq> None"

text \<open>No wipe is suspended, or exactly one is and the flag \<open>wiping\<close> is set.\<close>

definition single_flight :: "plugin \<Rightarrow> bool" where
  "single_flight s \<longleftrightarrow> pending s = [] \<or> (wiping s \<and> length (pending s) = 1)"

text \<open>An active session has its session object, its status bar item and its overlay.\<close>

definition armed_ok :: "plugin \<Rightarrow> bool" where
  "armed_ok s \<longleftrightarrow>
     (active s \<longrightarrow> session s \<noteq> None \<and> statusEl s \<noteq> None \<and> overlayEl s \<noteq> None)"

text \<open>
  Where a wipe stands, counted from \<open>w0\<close> writes: none started, waiting for the read,
  waiting for the write, or over with the session ended.
\<close>

definition wipe_phase :: "nat \<Rightarrow> plugin \<Rightarrow> bool" where
  "wipe_phase w0 s \<longleftrightarrow>
     (pending s = [] \<and> writes s = w0)
     \<or> (wiping s \<and> (\<exists>f. pending s = [AwaitRead f]) \<and> writes s = w0)
     \<or> (wiping s \<and> (\<exists>f c. pending s = [AwaitModify f c]) \<and> writes s = w0 + 1)
     \<or> (pending s = [] \<and> \<not> active s \<and> writes s = w0 + 1)"

section \<open>A session on a note with frontmatter\<close>

definition note_text :: jsstring where
  "note_text = js ''---\<newline>key: v\<newline>---\<newline>body text''"

definition note_view :: markdown_view where
  "note_view = \<lparr>view_file = Some ''note.md'', view_editor = Some note_text,
     view_setViewData = Works, view_history_cleared = False\<rparr>"

text \<open>The plugin right after loading, in a vault with one note, open in one view.\<close>

definition fresh :: plugin where
  "fresh = \<lparr>active = False, targetFile = None, session = None, lastInsertAt = 0,
     idleTicker = None, statusEl = None, idleWarnFired = False, overlayEl = None,
     overlayLevel = 0, wiping = False, noSelect = False,
     vault = [''note.md'' \<mapsto> TFile note_text], leaves = [note_view], notices = [],
     console = [], io_calls = [], pending = [], picking = [], next_timer = 0\<rparr>"

text \<open>A session of five minutes on the note, started at time 1000.\<close>

definition armed_example :: plugin where
  "armed_example =
     run fresh [StartCommand (Some note_view), DurationPicked 0 1000 1000 (Some 5)]"

text \<open>
  The note after one more character, a view of another note, and an update of the editor
  of the note that types one character.
\<close>

definition typed_text :: jsstring where
  "typed_text = note_text @ js ''x''"

definition example_session :: SessionState where
  "example_session = \<lparr>targetPath = ''note.md'', startedAt = 1000, durationMs = 300000,
     idleCutoffMs = 5000, endsAt = 301000, docLength = 24\<rparr>"

definition other_view :: markdown_view where
  "other_view = \<lparr>view_file = Some ''other.md'', view_editor = Some (js ''abc''),
     view_setViewData = Works, view_history_cleared = False\<rparr>"


text \<open>
  An update of the editor of the other note, open in a second pane: one character is
  inserted there (by a sync or by another plugin) while the target note has the focus.
\<close>

definition background_update :: view_update where
  "background_update = \<lparr>update_file = Some ''other.md'', docChanged = True,
     changes = [\<lparr>fromA = 3, toA = 3, fromB = 3, toB = 4, insertedText = js ''d''\<rparr>]\<rparr>"

text \<open>
  An idle streak that starts with a warning on the screen: the evaluator runs after 3000 ms
  of idleness, the user types at time 4050, and then stops typing. The evaluator runs at
  the times of \<open>streak_ticks\<close>.
\<close>

definition streak_example :: plugin where
  "streak_example = run armed_example [Tick 4000, EditorChange 4050 typed_text (Some note_view)]"

definition streak_ticks :: "int list" where
  "streak_ticks = [4100, 6350, 6650, 6950, 7250, 7550, 7850, 8150, 8450, 8750, 9040]"

text \<open>Evaluator runs and an edit that arrive while a wipe is in flight.\<close>

definition duplicate_triggers :: "event list" where
  "duplicate_triggers = [Tick 6100, Tick 6200]"

definition late_events :: "event list" where
  "late_events = [Tick 6300, EditorChange 6350 typed_text (Some note_view), Tick 6400]"

section \<open>The preserved block\<close>

lemma split_lines_nonempty: "split_lines t \<noteq> []"
  by (induction t rule: split_lines.induct) (auto split: list.splits)

lemma split_lines_no_LF: "l \<in> set (split_lines t) \<Longrightarrow> LF \<notin> set l"
  by (induction t arbitrary: l rule: split_lines.induct)
     (auto split: list.splits if_splits simp: LF_def CR_def)

lemma join_lines_Nil_iff: "ls \<noteq> [] \<Longrightarrow> last ls \<noteq> [] \<Longrightarrow> join_lines ls \<noteq> []"
  by (induction ls rule: join_lines.induct) auto

lemma last_join_lines:
  "ls \<noteq> [] \<Longrightarrow> last ls \<noteq> [] \<Longrightarrow> last (join_lines ls) = last (last ls)"
  by (induction ls rule: join_lines.induct) (auto simp: join_lines_Nil_iff)

lemma delimiter_nonempty: "delimiter \<noteq> []"
  by (simp add: delimiter_def js_def)

lemma trim_Nil: "trim [] = []"
  by (simp add: trim_def)

lemma closing_block_no_LF:
  assumes "k < length ls" "trim (ls ! k) = delimiter" "LF \<notin> set (ls ! k)"
  shows "\<not> endsWith_LF (join_lines (take (k + 1) ls))"
proof -
  have ne: "ls ! k \<noteq> []" using assms(2) delimiter_nonempty trim_Nil by metis
  have l: "last (take (k + 1) ls) = ls ! k" using assms(1)
    by (simp add: take_Suc_conv_app_nth)
  have t: "take (k + 1) ls \<noteq> []" using assms(1) by auto
  have "last (join_lines (take (k + 1) ls)) = last (ls ! k)"
    using last_join_lines[OF t] l ne by simp
  moreover have "last (ls ! k) \<in> set (ls ! k)" using ne by simp
  ultimately show ?thesis using assms(3) by (auto simp: endsWith_LF_def)
qed

lemma scan_closing_None:
  "(\<forall>j. i \<le> j \<and> j < length ls \<longrightarrow> trim (ls ! j) \<noteq> delimiter) \<Longrightarrow> scan_closing ls i = None"
proof (induction ls i rule: scan_closing.induct)
  case (1 lines i)
  show ?case
  proof (cases "i < length lines")
    case True
    then have nd: "trim (lines ! i) \<noteq> delimiter" using "1.prems" by auto
    have "scan_closing lines (i + 1) = None"
      using "1.IH"[OF True nd] "1.prems" by auto
    then show ?thesis using True nd by (simp add: scan_closing.simps[of lines i])
  next
    case False
    then show ?thesis by (simp add: scan_closing.simps[of lines i])
  qed
qed

lemma scan_closing_first:
  "i \<le> k \<Longrightarrow> k < length ls \<Longrightarrow> trim (ls ! k) = delimiter \<Longrightarrow>
   (\<forall>j. i \<le> j \<and> j < k \<longrightarrow> trim (ls ! j) \<noteq> delimiter) \<Longrightarrow>
   scan_closing ls i =
     Some (let block = join_lines (take (k + 1) ls)
           in if \<not> endsWith_LF block then block @ [LF] else block)"
proof (induction ls i rule: scan_closing.induct)
  case (1 lines i)
  show ?case
  proof (cases "i = k")
    case True
    then show ?thesis using "1.prems" by (simp add: scan_closing.simps[of lines k] Let_def)
  next
    case False
    then have lt: "i < k" using "1.prems" by simp
    then have il: "i < length lines" using "1.prems" by simp
    have nd: "trim (lines ! i) \<noteq> delimiter" using "1.prems" lt by auto
    have "scan_closing lines (i + 1) =
      Some (let block = join_lines (take (k + 1) lines)
            in if \<not> endsWith_LF block then block @ [LF] else block)"
      using "1.IH"[OF il nd] "1.prems" lt by auto
    then show ?thesis using il nd by (simp add: scan_closing.simps[of lines i])
  qed
qed


lemma first_line_not_delimiter:
  "trim (split_lines raw ! 0) \<noteq> delimiter \<Longrightarrow> preservedFrontmatter raw = []"
  by (simp add: preservedFrontmatter_def extractFrontmatterBlock_def Let_def)

lemma no_closing_delimiter:
  "\<not> (\<exists>i. 0 < i \<and> i < length (split_lines raw) \<and> trim (split_lines raw ! i) = delimiter)
   \<Longrightarrow> preservedFrontmatter raw = []"
proof -
  assume a: "\<not> (\<exists>i. 0 < i \<and> i < length (split_lines raw) \<and> trim (split_lines raw ! i) = delimiter)"
  have "scan_closing (split_lines raw) 1 = None"
    by (rule scan_closing_None) (use a in auto)
  then show ?thesis
    by (simp add: preservedFrontmatter_def extractFrontmatterBlock_def Let_def)
qed

lemma closed_block:
  assumes "trim (split_lines raw ! 0) = delimiter"
    and "0 < i" and "i < length (split_lines raw)"
    and "trim (split_lines raw ! i) = delimiter"
    and "\<forall>j. 0 < j \<and> j < i \<longrightarrow> trim (split_lines raw ! j) \<noteq> delimiter"
  shows "preservedFrontmatter raw = join_lines (take (i + 1) (split_lines raw)) @ [LF]"
    and "\<not> endsWith_LF (join_lines (take (i + 1) (split_lines raw)))"
proof -
  have "split_lines raw ! i \<in> set (split_lines raw)" using assms(3) by simp
  then have "LF \<notin> set (split_lines raw ! i)" by (rule split_lines_no_LF)
  then show e: "\<not> endsWith_LF (join_lines (take (i + 1) (split_lines raw)))"
    using closing_block_no_LF assms(3,4) by blast
  have "scan_closing (split_lines raw) 1 =
     Some (let block = join_lines (take (i + 1) (split_lines raw))
           in if \<not> endsWith_LF block then block @ [LF] else block)"
    by (rule scan_closing_first) (use assms in auto)
  then show "preservedFrontmatter raw = join_lines (take (i + 1) (split_lines raw)) @ [LF]"
    using e assms(1) split_lines_nonempty[of raw]
    by (simp add: preservedFrontmatter_def extractFrontmatterBlock_def Let_def)
qed

lemma read_answer_issues_write:
  "k < length (pending s) \<Longrightarrow> pending s ! k = AwaitRead file \<Longrightarrow> vault s file = Some (TFile raw) \<Longrightarrow>
   io_calls (io_done k True s) = io_calls s @ [VaultModify file (preservedFrontmatter raw)]"
  by (simp add: io_done_def Let_def)

lemma finally_block_vault: "vault (finally_block s) = vault s"
  by (simp add: finally_block_def endSession_def)

lemma wipe_done_vault: "vault (wipe_done s) = vault s"
  by (simp add: wipe_done_def finally_block_vault notify_def)

lemma wipe_failed_vault: "vault (wipe_failed s) = vault s"
  by (simp add: wipe_failed_def finally_block_vault notify_def)

lemma refresh_views_vault: "refresh_views p s = Some s' \<Longrightarrow> vault s' = vault s"
  by (auto simp: refresh_views_def split: if_splits option.splits)

lemma write_answer_replaces_content:
  "k < length (pending s) \<Longrightarrow> pending s ! k = AwaitModify file content \<Longrightarrow>
   vault (io_done k True s) file = Some (TFile content)"
  by (auto simp: io_done_def Let_def wipe_done_vault wipe_failed_vault
      dest!: refresh_views_vault split: option.splits)


text \<open>
  C1. The content a wipe writes for a document \<open>raw\<close>, with the lines of \<open>raw\<close> split at
  \<open>\r?\n\<close>: when the first line trims to \<open>---\<close> and \<open>i\<close> is the first later line that
  trims to \<open>---\<close>, it is the lines \<open>0..i\<close> joined with line feeds, followed by one line
  feed that the joined block does not already end with; when the first line does not trim to
  \<open>---\<close>, or no later line does, it is the empty string. The document
  with the four lines \<open>---\<close>, \<open>key: v\<close>, \<open>---\<close>, \<open>body text\<close> gives its first three lines, each
  followed by a line feed. This content is what the
  wipe passes to \<open>vault.modify\<close> once the read has answered, and what the file holds once
  the write has succeeded.
\<close>

theorem wipe_preserves_frontmatter_only:
  "(\<forall>i. trim (split_lines raw ! 0) = delimiter \<and> 0 < i \<and> i < length (split_lines raw)
        \<and> trim (split_lines raw ! i) = delimiter
        \<and> (\<forall>j. 0 < j \<and> j < i \<longrightarrow> trim (split_lines raw ! j) \<noteq> delimiter)
      \<longrightarrow> preservedFrontmatter raw = join_lines (take (i + 1) (split_lines raw)) @ [LF]
          \<and> \<not> endsWith_LF (join_lines (take (i + 1) (split_lines raw))))
   \<and> (\<not> (trim (split_lines raw ! 0) = delimiter
          \<and> (\<exists>i. 0 < i \<and> i < length (split_lines raw) \<and> trim (split_lines raw ! i) = delimiter))
      \<longrightarrow> preservedFrontmatter raw = [])
   \<and> preservedFrontmatter (js ''---\<newline>key: v\<newline>---\<newline>body text'') = js ''---\<newline>key: v\<newline>---\<newline>''
   \<and> (k < length (pending s) \<and> pending s ! k = AwaitRead fp \<and> vault s fp = Some (TFile raw)
      \<longrightarrow> io_calls (io_done k True s) = io_calls s @ [VaultModify fp (preservedFrontmatter raw)])
   \<and> (k < length (pending s) \<and> pending s ! k = AwaitModify fp content
      \<longrightarrow> vault (io_done k True s) fp = Some (TFile content))"
proof (intro conjI allI impI)
  show "preservedFrontmatter (js ''---\<newline>key: v\<newline>---\<newline>body text'') = js ''---\<newline>key: v\<newline>---\<newline>''"
    by code_simp
qed (use closed_block first_line_not_delimiter no_closing_delimiter
      read_answer_issues_write write_answer_replaces_content in blast)+


theorem wipe_preserves_frontmatter_only_witness:
  "preservedFrontmatter note_text = join_lines (take (2 + 1) (split_lines note_text)) @ [LF]
   \<and> \<not> endsWith_LF (join_lines (take (2 + 1) (split_lines note_text)))
   \<and> preservedFrontmatter (js ''body text'') = []
   \<and> io_calls (io_done 0 True (run armed_example [Tick 6000]))
       = io_calls (run armed_example [Tick 6000])
         @ [VaultModify ''note.md'' (preservedFrontmatter note_text)]
   \<and> vault (io_done 0 True (run armed_example [Tick 6000, IoDone 0 True])) ''note.md''
       = Some (TFile (js ''---\<newline>key: v\<newline>---\<newline>''))"
proof -
  have a: "trim (split_lines note_text ! 0) = delimiter" by code_simp
  have b: "(2::nat) < length (split_lines note_text)" by code_simp
  have c: "trim (split_lines note_text ! 2) = delimiter" by code_simp
  have d: "trim (split_lines note_text ! 1) \<noteq> delimiter" by code_simp
  have e: "\<forall>j. 0 < j \<and> j < 2 \<longrightarrow> trim (split_lines note_text ! j) \<noteq> delimiter"
  proof (intro allI impI)
    fix j :: nat
    assume "0 < j \<and> j < 2"
    then have "j = 1" by simp
    with d show "trim (split_lines note_text ! j) \<noteq> delimiter" by simp
  qed
  have f: "trim (split_lines (js ''body text'') ! 0) \<noteq> delimiter" by code_simp
  have g: "0 < length (pending (run armed_example [Tick 6000]))
     \<and> pending (run armed_example [Tick 6000]) ! 0 = AwaitRead ''note.md''
     \<and> vault (run armed_example [Tick 6000]) ''note.md'' = Some (TFile note_text)"
    by code_simp
  have h: "0 < length (pending (run armed_example [Tick 6000, IoDone 0 True]))
     \<and> pending (run armed_example [Tick 6000, IoDone 0 True]) ! 0
        = AwaitModify ''note.md'' (js ''---\<newline>key: v\<newline>---\<newline>'')"
    by code_simp
  note t1 = wipe_preserves_frontmatter_only
    [where raw = note_text and s = "run armed_example [Tick 6000]" and k = 0
       and fp = "''note.md''"]
  note t2 = wipe_preserves_frontmatter_only [where raw = "js ''body text''"]
  note t3 = wipe_preserves_frontmatter_only
    [where s = "run armed_example [Tick 6000, IoDone 0 True]" and k = 0
       and fp = "''note.md''" and content = "js ''---\<newline>key: v\<newline>---\<newline>''"]
  have p1: "trim (split_lines note_text ! 0) = delimiter \<and> 0 < (2::nat)
      \<and> 2 < length (split_lines note_text) \<and> trim (split_lines note_text ! 2) = delimiter
      \<and> (\<forall>j. 0 < j \<and> j < 2 \<longrightarrow> trim (split_lines note_text ! j) \<noteq> delimiter)"
    by (intro conjI a b c e) simp
  have p2: "\<not> (trim (split_lines (js ''body text'') ! 0) = delimiter
      \<and> (\<exists>i. 0 < i \<and> i < length (split_lines (js ''body text''))
             \<and> trim (split_lines (js ''body text'') ! i) = delimiter))"
    using f by (rule contrapos_nn) (rule conjunct1)
  note c1 = t1 [THEN conjunct1, THEN spec [where x = "2::nat"], THEN mp, OF p1]
  note c2 = t2 [THEN conjunct2, THEN conjunct1, THEN mp, OF p2]
  note c3 = t1 [THEN conjunct2, THEN conjunct2, THEN conjunct2, THEN conjunct1, THEN mp, OF g]
  note c4 = t3 [THEN conjunct2, THEN conjunct2, THEN conjunct2, THEN conjunct2, THEN mp, OF h]
  show ?thesis
    by (intro conjI c1 [THEN conjunct1] c1 [THEN conjunct2] c2 c3 c4)
qed

section \<open>What the operations leave unchanged\<close>

lemma endSession_fields:
  "active (endSession s) = False" "session (endSession s) = None"
  "targetFile (endSession s) = None" "idleTicker (endSession s) = None"
  "statusEl (endSession s) = None" "overlayEl (endSession s) = None"
  "noSelect (endSession s) = False" "wiping (endSession s) = wiping s"
  "io_calls (endSession s) = io_calls s" "pending (endSession s) = pending s"
  "vault (endSession s) = vault s" "notices (endSession s) = notices s"
  "lastInsertAt (endSession s) = lastInsertAt s" "overlayLevel (endSession s) = overlayLevel s"
  "leaves (endSession s) = leaves s" "console (endSession s) = console s"
  "picking (endSession s) = picking s"
  by (simp_all add: endSession_def)

lemma finally_block_fields:
  "active (finally_block s) = False" "session (finally_block s) = None"
  "targetFile (finally_block s) = None" "idleTicker (finally_block s) = None"
  "statusEl (finally_block s) = None" "overlayEl (finally_block s) = None"
  "noSelect (finally_block s) = False" "wiping (finally_block s) = False"
  "io_calls (finally_block s) = io_calls s" "pending (finally_block s) = pending s"
  "notices (finally_block s) = notices s"
  "lastInsertAt (finally_block s) = lastInsertAt s" "overlayLevel (finally_block s) = overlayLevel s"
  "leaves (finally_block s) = leaves s" "console (finally_block s) = console s"
  "picking (finally_block s) = picking s"
  by (simp_all add: finally_block_def endSession_def)

lemma wipe_done_fields:
  "active (wipe_done s) = False" "session (wipe_done s) = None"
  "targetFile (wipe_done s) = None" "idleTicker (wipe_done s) = None"
  "statusEl (wipe_done s) = None" "overlayEl (wipe_done s) = None"
  "noSelect (wipe_done s) = False" "wiping (wipe_done s) = False"
  "io_calls (wipe_done s) = io_calls s" "pending (wipe_done s) = pending s"
  "notices (wipe_done s) = notices s @ [Note_wiped]"
  "lastInsertAt (wipe_done s) = lastInsertAt s" "overlayLevel (wipe_done s) = overlayLevel s"
  "leaves (wipe_done s) = leaves s" "console (wipe_done s) = console s"
  by (simp_all add: wipe_done_def finally_block_fields notify_def)

lemma wipe_failed_fields:
  "active (wipe_failed s) = False" "session (wipe_failed s) = None"
  "targetFile (wipe_failed s) = None" "idleTicker (wipe_failed s) = None"
  "statusEl (wipe_failed s) = None" "overlayEl (wipe_failed s) = None"
  "noSelect (wipe_failed s) = False" "wiping (wipe_failed s) = False"
  "io_calls (wipe_failed s) = io_calls s" "pending (wipe_failed s) = pending s"
  "notices (wipe_failed s) = notices s @ [Failed_to_wipe]"
  "lastInsertAt (wipe_failed s) = lastInsertAt s" "overlayLevel (wipe_failed s) = overlayLevel s"
  "leaves (wipe_failed s) = leaves s" "console (wipe_failed s) = console s @ [Console_error]"
  by (simp_all add: wipe_failed_def finally_block_fields notify_def)

lemma run_Nil [simp]: "run s [] = s"
  by (simp add: run_def)

lemma run_Cons [simp]: "run s (e # es) = run (step s e) es"
  by (simp add: run_def)


lemma setOverlayProgress_frame:
  "active (setOverlayProgress p s) = active s" "session (setOverlayProgress p s) = session s"
  "lastInsertAt (setOverlayProgress p s) = lastInsertAt s"
  "wiping (setOverlayProgress p s) = wiping s" "io_calls (setOverlayProgress p s) = io_calls s"
  "pending (setOverlayProgress p s) = pending s" "vault (setOverlayProgress p s) = vault s"
  "notices (setOverlayProgress p s) = notices s" "statusEl (setOverlayProgress p s) = statusEl s"
  by (simp_all add: setOverlayProgress_def Let_def split: option.splits)

lemma setOverlayVisible_frame:
  "active (setOverlayVisible v s) = active s" "session (setOverlayVisible v s) = session s"
  "lastInsertAt (setOverlayVisible v s) = lastInsertAt s"
  "wiping (setOverlayVisible v s) = wiping s" "io_calls (setOverlayVisible v s) = io_calls s"
  "pending (setOverlayVisible v s) = pending s" "vault (setOverlayVisible v s) = vault s"
  "notices (setOverlayVisible v s) = notices s" "statusEl (setOverlayVisible v s) = statusEl s"
  by (simp_all add: setOverlayVisible_def split: option.splits)

lemma tick_overlay_frame:
  "active (tick_overlay i ss s) = active s" "session (tick_overlay i ss s) = session s"
  "lastInsertAt (tick_overlay i ss s) = lastInsertAt s"
  "wiping (tick_overlay i ss s) = wiping s" "io_calls (tick_overlay i ss s) = io_calls s"
  "pending (tick_overlay i ss s) = pending s" "vault (tick_overlay i ss s) = vault s"
  "notices (tick_overlay i ss s) = notices s" "statusEl (tick_overlay i ss s) = statusEl s"
  by (simp_all add: tick_overlay_def Let_def setOverlayProgress_frame setOverlayVisible_frame)

lemma edit_frame:
  "pending (updateListener now v u s) = pending s" "io_calls (updateListener now v u s) = io_calls s"
  "wiping (updateListener now v u s) = wiping s" "active (updateListener now v u s) = active s"
  "pending (editorChange now x v s) = pending s" "io_calls (editorChange now x v s) = io_calls s"
  "wiping (editorChange now x v s) = wiping s" "active (editorChange now x v s) = active s"
  by (simp_all add: updateListener_def editorChange_def Let_def split: option.splits)

lemma writes_append: "io_calls s' = io_calls s @ cs \<Longrightarrow> writes s' = writes s + length (filter is_modify cs)"
  by (simp add: writes_def)

lemma refresh_views_frame:
  "refresh_views p s = Some s' \<Longrightarrow>
   vault s' = vault s \<and> io_calls s' = io_calls s \<and> pending s' = pending s"
  by (auto simp: refresh_views_def split: if_splits option.splits)

lemma ticker_update_inactive: "\<not> active s \<Longrightarrow> ticker_update now s = s"
  by (simp add: ticker_update_def)

lemma handleIdleTimeout_noop: "\<not> active s \<or> wiping s \<Longrightarrow> handleIdleTimeout s = s"
  by (auto simp: handleIdleTimeout_def)

lemma handleIdleTimeout_overlayLevel: "overlayLevel (handleIdleTimeout s) = overlayLevel s"
  by (simp add: handleIdleTimeout_def Let_def wipe_done_fields split: option.splits)

lemma handleIdleTimeout_overlayEl:
  "active (handleIdleTimeout s) \<Longrightarrow> overlayEl (handleIdleTimeout s) = overlayEl s"
  by (auto simp: handleIdleTimeout_def Let_def wipe_done_fields split: option.splits if_splits)

lemma handleIdleTimeout_session:
  "active (handleIdleTimeout s) \<Longrightarrow> session (handleIdleTimeout s) = session s"
  "lastInsertAt (handleIdleTimeout s) = lastInsertAt s"
  by (auto simp: handleIdleTimeout_def Let_def wipe_done_fields split: option.splits if_splits)

lemma handleIdleTimeout_active: "active (handleIdleTimeout s) \<Longrightarrow> active s"
  by (auto simp: handleIdleTimeout_def Let_def wipe_done_fields split: option.splits if_splits)

lemma handleIdleTimeout_overlay_None:
  "overlayEl s = None \<Longrightarrow> overlayEl (handleIdleTimeout s) = None"
  by (auto simp: handleIdleTimeout_def Let_def wipe_done_fields split: option.splits if_splits)

section \<open>The insertion channels\<close>

text \<open>
  C7. The fallback channel: a content-changed event sets \<open>lastInsertAt\<close> to the current
  time when the session is active, the view of the event has the target path and the new
  length is greater than the recorded one; in every other case \<open>lastInsertAt\<close> keeps its
  value, in particular when the new length is at most the recorded one.
\<close>

theorem fallback_channel_counts_net_growth_only:
  "(active s \<and> session s = Some ss \<and> view = Some v \<and> view_file v = Some (targetPath ss)
        \<and> docLength ss < length editorValue
      \<longrightarrow> lastInsertAt (editorChange now editorValue view s) = now)
   \<and> (\<not> (active s \<and> (\<exists>ss v. session s = Some ss \<and> view = Some v
              \<and> view_file v = Some (targetPath ss) \<and> docLength ss < length editorValue))
      \<longrightarrow> lastInsertAt (editorChange now editorValue view s) = lastInsertAt s)
   \<and> (session s = Some ss \<and> length editorValue \<le> docLength ss
      \<longrightarrow> lastInsertAt (editorChange now editorValue view s) = lastInsertAt s)"
  by (auto simp: editorChange_def Let_def split: option.splits)

theorem fallback_channel_counts_net_growth_only_witness:
  "lastInsertAt (editorChange 3000 typed_text (Some note_view) armed_example) = 3000
   \<and> lastInsertAt (editorChange 3000 (js ''---'') (Some note_view) armed_example)
       = lastInsertAt armed_example"
proof -
  have h1: "active armed_example \<and> session armed_example = Some example_session
      \<and> Some note_view = Some note_view
      \<and> view_file note_view = Some (targetPath example_session)
      \<and> docLength example_session < length typed_text"
    by code_simp
  have h2: "session armed_example = Some example_session
      \<and> length (js ''---'') \<le> docLength example_session"
    by code_simp
  note t = fallback_channel_counts_net_growth_only
    [where s = armed_example and ss = example_session and view = "Some note_view"
       and v = note_view and now = 3000]
  show ?thesis
    by (intro conjI t [where editorValue = typed_text, THEN conjunct1, THEN mp, OF h1]
        t [where editorValue = "js ''---''", THEN conjunct2, THEN conjunct2, THEN mp, OF h2])
qed

lemma events_ignored:
  "((\<not> active s \<or> session s = None)
      \<longrightarrow> updateListener now view upd s = s \<and> editorChange now editorValue view s = s)
   \<and> (session s = Some ss
        \<and> (case view of None \<Rightarrow> True | Some v \<Rightarrow> view_file v \<noteq> Some (targetPath ss))
      \<longrightarrow> updateListener now view upd s = s \<and> editorChange now editorValue view s = s)"
  by (auto simp: updateListener_def editorChange_def Let_def split: option.splits)

lemma listener_reads_active_view_only:
  "active s \<Longrightarrow> session s = Some ss \<Longrightarrow> view_file v = Some (targetPath ss) \<Longrightarrow>
   docChanged upd \<Longrightarrow> 0 < count_inserted (changes upd) \<Longrightarrow>
   lastInsertAt (updateListener now (Some v) (upd\<lparr>update_file := f\<rparr>) s) = now"
  by (simp add: updateListener_def)

text \<open>
  C8. The claim: an edit event of either channel whose document differs from the target
  document, or that arrives when no session is active, leaves the state unchanged. The
  editor-change handler does this: a change of the other note leaves the state as it is.
  The update listener does not: it never looks at the editor the update belongs to, only at
  the active Markdown view. With the target note focused, an update that inserts one
  character into the other note sets \<open>lastInsertAt\<close> from 1000 to 3000, whatever file the
  update belongs to, and the evaluator run at 6000, which starts the wipe without that
  update, starts none after it.
\<close>

theorem listener_accepts_update_of_other_document:
  "active armed_example \<and> session armed_example = Some example_session
   \<and> view_file note_view = Some (targetPath example_session)
   \<and> update_file background_update = Some ''other.md''
   \<and> update_file background_update \<noteq> Some (targetPath example_session)
   \<and> lastInsertAt armed_example = 1000
   \<and> lastInsertAt (updateListener 3000 (Some note_view) background_update armed_example) = 3000
   \<and> updateListener 3000 (Some note_view) background_update armed_example \<noteq> armed_example
   \<and> (\<forall>f. lastInsertAt (updateListener 3000 (Some note_view)
              (background_update\<lparr>update_file := f\<rparr>) armed_example) = 3000)
   \<and> pending (run armed_example [Tick 6000]) = [AwaitRead ''note.md'']
   \<and> pending (run armed_example
         [Update 3000 (Some note_view) background_update, Tick 6000]) = []
   \<and> editorChange 3000 (js ''abcd'') (Some other_view) armed_example = armed_example"
proof -
  have ac: "active armed_example" by code_simp
  have se: "session armed_example = Some example_session" by code_simp
  have vf: "view_file note_view = Some (targetPath example_session)" by code_simp
  have uf: "update_file background_update = Some ''other.md''" by code_simp
  have un: "update_file background_update \<noteq> Some (targetPath example_session)" by code_simp
  have l0: "lastInsertAt armed_example = 1000" by code_simp
  have l1: "lastInsertAt (updateListener 3000 (Some note_view) background_update armed_example)
      = 3000"
    by code_simp
  have ne: "updateListener 3000 (Some note_view) background_update armed_example
      \<noteq> armed_example"
  proof
    assume "updateListener 3000 (Some note_view) background_update armed_example = armed_example"
    then have "lastInsertAt (updateListener 3000 (Some note_view) background_update armed_example)
        = lastInsertAt armed_example"
      by (rule arg_cong)
    then show False unfolding l0 l1 by simp
  qed
  have dc: "docChanged background_update" by code_simp
  have ci: "0 < count_inserted (changes background_update)" by code_simp
  have any: "\<forall>f. lastInsertAt (updateListener 3000 (Some note_view)
              (background_update\<lparr>update_file := f\<rparr>) armed_example) = 3000"
    by (intro allI listener_reads_active_view_only [OF ac se vf dc ci])
  have p1: "pending (run armed_example [Tick 6000]) = [AwaitRead ''note.md'']" by code_simp
  have p2: "pending (run armed_example
         [Update 3000 (Some note_view) background_update, Tick 6000]) = []"
    by code_simp
  have h: "session armed_example = Some example_session
      \<and> (case Some other_view of None \<Rightarrow> True
          | Some v \<Rightarrow> view_file v \<noteq> Some (targetPath example_session))"
    by code_simp
  note ig = events_ignored
    [where s = armed_example and ss = example_session and view = "Some other_view"
       and now = 3000 and upd = background_update and editorValue = "js ''abcd''",
     THEN conjunct2, THEN mp, OF h, THEN conjunct2]
  show ?thesis
    by (intro conjI ac se vf uf un l0 l1 ne any p1 p2 ig)
qed

text \<open>
  C10. Every content-changed event for the target document records the new length in
  \<open>docLength\<close>, a deletion too. So after a deletion the next change counts as an insertion
  as soon as the text is longer than it was after the deletion, also when it is still
  shorter than at the start of the session.
\<close>

theorem fallback_baseline_follows_every_change:
  "(active s \<and> session s = Some ss \<and> view_file v = Some (targetPath ss)
      \<longrightarrow> session (editorChange now editorValue (Some v) s)
            = Some (ss\<lparr>docLength := length editorValue\<rparr>))
   \<and> (active s \<and> session s = Some ss \<and> view_file v = Some (targetPath ss)
        \<and> length deleted < docLength ss \<and> length deleted < length grown
      \<longrightarrow> lastInsertAt (editorChange now deleted (Some v) s) = lastInsertAt s
          \<and> lastInsertAt (editorChange now' grown (Some v) (editorChange now deleted (Some v) s))
              = now')"
  by (auto simp: editorChange_def Let_def split: option.splits)

theorem fallback_baseline_follows_every_change_witness:
  "session (editorChange 3000 (js ''---'') (Some note_view) armed_example)
     = Some (example_session\<lparr>docLength := length (js ''---'')\<rparr>)
   \<and> lastInsertAt (editorChange 3000 (js ''---'') (Some note_view) armed_example)
       = lastInsertAt armed_example
   \<and> lastInsertAt (editorChange 3500 (js ''---\<newline>key'') (Some note_view)
        (editorChange 3000 (js ''---'') (Some note_view) armed_example)) = 3500
   \<and> length (js ''---\<newline>key'') < docLength example_session"
proof -
  have h1: "active armed_example \<and> session armed_example = Some example_session
      \<and> view_file note_view = Some (targetPath example_session)"
    by code_simp
  have h2: "active armed_example \<and> session armed_example = Some example_session
      \<and> view_file note_view = Some (targetPath example_session)
      \<and> length (js ''---'') < docLength example_session
      \<and> length (js ''---'') < length (js ''---\<newline>key'')"
    by code_simp
  have h3: "length (js ''---\<newline>key'') < docLength example_session" by code_simp
  note t = fallback_baseline_follows_every_change
    [where s = armed_example and ss = example_session and v = note_view and now = 3000
       and now' = 3500 and editorValue = "js ''---''" and deleted = "js ''---''"
       and grown = "js ''---\<newline>key''"]
  note t1 = t [THEN conjunct1, THEN mp, OF h1]
  note t2 = t [THEN conjunct2, THEN mp, OF h2]
  show ?thesis
    by (intro conjI t1 t2 [THEN conjunct1] t2 [THEN conjunct2] h3)
qed

section \<open>The end of the duration\<close>

text \<open>
  C3. An evaluator run of an active session at a time \<open>now \<ge> endsAt\<close> ends the session
  with the notice of a completed session and starts no wipe: no vault call is issued, no
  wipe is suspended, the flag \<open>wiping\<close> and the vault keep their values. Nothing is asked
  of the idle time, so this also holds when the idle cutoff is reached in the same run.
\<close>

theorem duration_end_has_priority:
  "active s \<and> session s = Some ss \<and> endsAt ss \<le> now
   \<longrightarrow> ticker_update now s = endSession (notify Session_complete s)
     \<and> \<not> active (ticker_update now s) \<and> session (ticker_update now s) = None
     \<and> notices (ticker_update now s) = notices s @ [Session_complete]
     \<and> io_calls (ticker_update now s) = io_calls s
     \<and> pending (ticker_update now s) = pending s
     \<and> wiping (ticker_update now s) = wiping s
     \<and> vault (ticker_update now s) = vault s"
  by (simp add: ticker_update_def endSession_fields notify_def)

theorem duration_end_has_priority_witness:
  "idleCutoffMs example_session \<le> 301000 - lastInsertAt armed_example
   \<and> ticker_update 301000 armed_example = endSession (notify Session_complete armed_example)
   \<and> \<not> active (ticker_update 301000 armed_example)
   \<and> session (ticker_update 301000 armed_example) = None
   \<and> notices (ticker_update 301000 armed_example) = notices armed_example @ [Session_complete]
   \<and> io_calls (ticker_update 301000 armed_example) = io_calls armed_example
   \<and> pending (ticker_update 301000 armed_example) = pending armed_example
   \<and> wiping (ticker_update 301000 armed_example) = wiping armed_example
   \<and> vault (ticker_update 301000 armed_example) = vault armed_example"
proof -
  have h0: "idleCutoffMs example_session \<le> 301000 - lastInsertAt armed_example" by code_simp
  have h: "active armed_example \<and> session armed_example = Some example_session
      \<and> endsAt example_session \<le> 301000"
    by code_simp
  note t = duration_end_has_priority
    [where s = armed_example and ss = example_session and now = 301000, THEN mp, OF h]
  show ?thesis by (rule conjI [OF h0 t])
qed

section \<open>The overlay level\<close>

lemma clamp_mono: "a \<le> b \<Longrightarrow> clamp a lo hi \<le> clamp b lo hi"
  by (auto simp: clamp_def max_def min_def)

lemma clamp_range: "lo \<le> hi \<Longrightarrow> lo \<le> clamp a lo hi \<and> clamp a lo hi \<le> hi"
  by (auto simp: clamp_def max_def min_def)

lemma overlay_ratio_mono:
  assumes "i \<le> j"
  shows "overlay_ratio c i \<le> overlay_ratio c j"
proof -
  let ?d = "min OVERLAY_DELAY_MS c"
  let ?den = "real_of_int (max 1 (c - ?d))"
  have den: "0 < ?den" by simp
  show ?thesis
  proof (cases "?d \<le> i")
    case True
    then have dj: "?d \<le> j" using assms by simp
    have "real_of_int (i - ?d) / ?den \<le> real_of_int (j - ?d) / ?den"
      using assms den by (intro divide_right_mono) auto
    then show ?thesis using True dj
      by (simp add: overlay_ratio_def Let_def clamp_mono)
  next
    case False
    have "(0::real) \<le> clamp x 0 1" for x :: real
      using clamp_range[of 0 1 x] by simp
    then show ?thesis using False
      by (simp add: overlay_ratio_def Let_def)
  qed
qed

lemma overlay_level_mono: "i \<le> j \<Longrightarrow> overlay_level c i \<le> overlay_level c j"
  unfolding overlay_level_def
  by (intro clamp_mono round_mono mult_right_mono overlay_ratio_mono) auto

lemma overlay_level_range: "0 \<le> overlay_level c i \<and> overlay_level c i \<le> 10"
  unfolding overlay_level_def by (rule clamp_range) simp

lemma overlay_level_below_delay:
  "i < min OVERLAY_DELAY_MS c \<Longrightarrow> overlay_level c i = 0"
proof -
  assume "i < min OVERLAY_DELAY_MS c"
  then have "\<not> min OVERLAY_DELAY_MS c \<le> i" by linarith
  then have "overlay_ratio c i = 0" by (simp only: overlay_ratio_def Let_def if_False)
  then show ?thesis by (simp add: overlay_level_def clamp_def)
qed

lemma setOverlayProgress_level:
  "overlayEl s = Some el \<Longrightarrow> overlayLevel (setOverlayProgress p s) = clamp (round (p * 10)) 0 10"
  by (simp add: setOverlayProgress_def Let_def)

lemma setOverlayVisible_level [simp]: "overlayLevel (setOverlayVisible v s) = overlayLevel s"
  by (simp add: setOverlayVisible_def split: option.splits)

lemma setOverlayVisible_el:
  "overlayEl s = Some el \<Longrightarrow> overlayEl (setOverlayVisible v s) = Some (classList_toggle Is_visible v el)"
  by (simp add: setOverlayVisible_def)

lemma setOverlayProgress_visible:
  "overlayEl s = Some el \<Longrightarrow>
   \<exists>el'. overlayEl (setOverlayProgress p s) = Some el' \<and> (Is_visible \<in> set el' \<longleftrightarrow> Is_visible \<in> set el)"
  by (auto simp: setOverlayProgress_def Let_def classList_add_def classList_remove_def)

lemma tick_overlay_level:
  "overlayEl s = Some el \<Longrightarrow>
   overlayLevel (tick_overlay idleMs ss s) = overlay_level (idleCutoffMs ss) idleMs"
  by (simp add: tick_overlay_def overlay_level_def overlay_ratio_def Let_def
      setOverlayProgress_level setOverlayVisible_el)

lemma tick_overlay_visible:
  assumes "overlayEl s = Some el"
  shows "\<exists>el'. overlayEl (tick_overlay idleMs ss s) = Some el'
     \<and> (Is_visible \<in> set el' \<longleftrightarrow> min OVERLAY_DELAY_MS (idleCutoffMs ss) \<le> idleMs)"
proof -
  let ?v = "min OVERLAY_DELAY_MS (idleCutoffMs ss) \<le> idleMs"
  have 1: "overlayEl (setOverlayVisible ?v s) = Some (classList_toggle Is_visible ?v el)"
    using assms by (rule setOverlayVisible_el)
  have 2: "Is_visible \<in> set (classList_toggle Is_visible ?v el) \<longleftrightarrow> ?v"
    by (simp add: classList_toggle_def classList_add_def classList_remove_def)
  show ?thesis
  proof (cases ?v)
    case True
    then show ?thesis
      using setOverlayProgress_visible[OF 1, of "clamp (real_of_int (idleMs - min OVERLAY_DELAY_MS (idleCutoffMs ss)) / real_of_int (max 1 (idleCutoffMs ss - min OVERLAY_DELAY_MS (idleCutoffMs ss)))) 0 1"] 2
      by (simp add: tick_overlay_def Let_def)
  next
    case False
    then show ?thesis
      using setOverlayProgress_visible[OF 1, of 0] 2
      by (simp add: tick_overlay_def Let_def)
  qed
qed

lemma ticker_update_running:
  assumes "active s" "session s = Some ss" "now < endsAt ss"
  shows "overlayLevel (ticker_update now s) = overlayLevel (tick_overlay (now - lastInsertAt s) ss s)"
    and "active (ticker_update now s) \<Longrightarrow>
         overlayEl (ticker_update now s) = overlayEl (tick_overlay (now - lastInsertAt s) ss s)"
  using assms
  by (auto simp: ticker_update_def Let_def handleIdleTimeout_overlayLevel
      handleIdleTimeout_overlayEl split: option.splits)

section \<open>Invariants of the event loop\<close>

lemma handleIdleTimeout_single_flight:
  "single_flight s \<Longrightarrow> single_flight (handleIdleTimeout s)"
  by (auto simp: single_flight_def handleIdleTimeout_def Let_def wipe_done_fields
      split: option.splits)

lemma ticker_update_single_flight:
  assumes "single_flight s"
  shows "single_flight (ticker_update now s)"
proof -
  have 1: "single_flight (endSession (notify Session_complete s))"
    using assms by (simp add: single_flight_def endSession_fields notify_def)
  have 2: "single_flight (tick_overlay i ss s)" for i ss
    using assms by (simp add: single_flight_def tick_overlay_frame)
  have 3: "single_flight (tick_overlay i ss s\<lparr>statusEl := z\<rparr>)" for i ss z
    using assms by (simp add: single_flight_def tick_overlay_frame)
  show ?thesis
    using assms 1 2 3 handleIdleTimeout_single_flight[OF 3]
    by (simp add: ticker_update_def Let_def split: option.splits)
qed

lemma io_done_single_flight:
  assumes "single_flight s"
  shows "single_flight (io_done k ok s)"
proof (cases "k < length (pending s)")
  case False
  then show ?thesis using assms by (simp add: io_done_def)
next
  case True
  then obtain task where p: "pending s = [task]" "wiping s" "k = 0"
    using assms by (cases "pending s") (auto simp: single_flight_def)
  show ?thesis
    using p
    by (auto simp: io_done_def Let_def single_flight_def wipe_done_fields wipe_failed_fields
        dest!: refresh_views_frame split: wipe_task.splits option.splits vault_entry.splits)
qed

lemma arm_single_flight:
  assumes "single_flight s"
  shows "single_flight (arm now now' minutes p v s)"
proof -
  have e: "single_flight (ensureOverlay x) = single_flight x" for x
    by (simp add: ensureOverlay_def single_flight_def split: option.splits)
  have n: "single_flight (notify m x) = single_flight x" for m x
    by (simp add: notify_def single_flight_def)
  have st: "single_flight x \<Longrightarrow> single_flight (startIdleTicker t x)" for t x
  proof -
    assume x: "single_flight x"
    have "single_flight (x\<lparr>idleTicker := a, next_timer := b\<rparr>)" for a b
      using x by (simp add: single_flight_def)
    then show ?thesis
      using x by (simp add: startIdleTicker_def ticker_update_single_flight split: option.splits)
  qed
  have u: "single_flight (x\<lparr>noSelect := True\<rparr>) = single_flight x" for x
    by (simp add: single_flight_def)
  have i: "single_flight (s\<lparr>active := a, targetFile := b, session := c, lastInsertAt := d,
      statusEl := f, idleWarnFired := g\<rparr>)" for a b c d f g
    using assms by (simp add: single_flight_def)
  show ?thesis
    unfolding arm_def Let_def n
    by (rule st) (simp only: u e i)
qed

lemma step_single_flight:
  assumes "single_flight s"
  shows "single_flight (step s e)"
proof (cases e)
  case (Tick now)
  then show ?thesis using assms by (simp add: ticker_update_single_flight)
next
  case (Update now activeView upd)
  then show ?thesis using assms
    by (simp add: updateListener_def single_flight_def split: option.splits)
next
  case (EditorChange now editorValue view)
  then show ?thesis using assms
    by (simp add: editorChange_def Let_def single_flight_def split: option.splits)
next
  case (StartCommand activeView)
  then show ?thesis using assms
    by (simp add: startSessionFlow_def notify_def single_flight_def split: option.splits)
next
  case (DurationPicked k now now' answer)
  have "single_flight (s\<lparr>picking := z\<rparr>)" for z
    using assms by (simp add: single_flight_def)
  then show ?thesis using assms DurationPicked
    by (simp add: duration_picked_def Let_def arm_single_flight split: option.splits)
next
  case (IoDone k ok)
  then show ?thesis using assms by (simp add: io_done_single_flight)
next
  case Unload
  then show ?thesis using assms by (simp add: onunload_def single_flight_def endSession_fields)
qed

lemma run_single_flight: "single_flight s \<Longrightarrow> single_flight (run s es)"
  by (induction es arbitrary: s) (simp_all add: step_single_flight)

lemma loaded_single_flight: "loaded s \<Longrightarrow> single_flight s"
  by (simp add: loaded_def single_flight_def)

lemma tick_overlay_keeps_el:
  assumes "overlayEl s \<noteq> None"
  shows "overlayEl (tick_overlay i ss s) \<noteq> None"
proof -
  obtain el where "overlayEl s = Some el" using assms by auto
  from tick_overlay_visible[OF this, of i ss] show ?thesis by auto
qed

lemma handleIdleTimeout_armed_ok:
  "armed_ok s \<Longrightarrow> armed_ok (handleIdleTimeout s)"
  by (auto simp: armed_ok_def handleIdleTimeout_def Let_def wipe_done_fields split: option.splits)

lemma ticker_update_armed_ok:
  assumes "armed_ok s"
  shows "armed_ok (ticker_update now s)"
proof (cases "active s")
  case False
  then show ?thesis using assms by (simp add: ticker_update_inactive)
next
  case True
  then obtain ss where ss: "session s = Some ss" and st: "statusEl s \<noteq> None"
    and ov: "overlayEl s \<noteq> None"
    using assms by (auto simp: armed_ok_def)
  have 1: "armed_ok (tick_overlay i ss s\<lparr>statusEl := Some z\<rparr>)" for i z
    using True ss tick_overlay_keeps_el[OF ov, of i ss]
    by (simp add: armed_ok_def tick_overlay_frame)
  show ?thesis
    using True ss st 1 handleIdleTimeout_armed_ok[OF 1]
    by (auto simp: ticker_update_def Let_def tick_overlay_frame armed_ok_def endSession_fields
        split: option.splits)
qed

lemma arm_armed_ok: "armed_ok (arm now now' minutes p v s)"
proof -
  let ?s1 = "s\<lparr>active := True, targetFile := Some p,
                 session := Some \<lparr>targetPath = p, startedAt = now,
                    durationMs = round (minutes * 60000),
                    idleCutoffMs = DEFAULT_IDLE_CUTOFF_MS,
                    endsAt = now + round (minutes * 60000),
                    docLength = (case v of None \<Rightarrow> 0 | Some v \<Rightarrow> length v)\<rparr>,
                 lastInsertAt := now,
                 statusEl := Some (Idle_remaining DEFAULT_IDLE_CUTOFF_MS),
                 idleWarnFired := False\<rparr>"
  have 1: "armed_ok ((ensureOverlay ?s1)\<lparr>noSelect := True\<rparr>)"
    by (simp add: armed_ok_def ensureOverlay_def split: option.splits)
  have 2: "armed_ok x \<Longrightarrow> armed_ok (startIdleTicker t x)" for t x
  proof -
    assume x: "armed_ok x"
    have "armed_ok (x\<lparr>idleTicker := a, next_timer := b\<rparr>)" for a b
      using x by (simp add: armed_ok_def)
    then show ?thesis using x
      by (simp add: startIdleTicker_def ticker_update_armed_ok split: option.splits)
  qed
  have 3: "armed_ok (notify m x) = armed_ok x" for m x
    by (simp add: armed_ok_def notify_def)
  show ?thesis
    unfolding arm_def Let_def 3 by (rule 2) (rule 1)
qed

lemma io_done_armed_ok:
  assumes "armed_ok s"
  shows "armed_ok (io_done k ok s)"
  using assms
  by (auto simp: io_done_def Let_def armed_ok_def wipe_failed_fields wipe_done_fields
      split: wipe_task.splits option.splits vault_entry.splits)

lemma step_armed_ok:
  assumes "armed_ok s"
  shows "armed_ok (step s e)"
proof (cases e)
  case (Tick now)
  then show ?thesis using assms by (simp add: ticker_update_armed_ok)
next
  case (Update now activeView upd)
  then show ?thesis using assms
    by (auto simp: updateListener_def armed_ok_def split: option.splits)
next
  case (EditorChange now editorValue view)
  then show ?thesis using assms
    by (auto simp: editorChange_def Let_def armed_ok_def split: option.splits)
next
  case (StartCommand activeView)
  then show ?thesis using assms
    by (auto simp: startSessionFlow_def notify_def armed_ok_def split: option.splits)
next
  case (DurationPicked k now now' answer)
  have "armed_ok (s\<lparr>picking := z\<rparr>)" for z
    using assms by (simp add: armed_ok_def)
  then show ?thesis using assms DurationPicked
    by (simp add: duration_picked_def Let_def arm_armed_ok split: option.splits)
next
  case (IoDone k ok)
  then show ?thesis using assms by (simp add: io_done_armed_ok)
next
  case Unload
  then show ?thesis by (simp add: onunload_def armed_ok_def endSession_fields)
qed

lemma run_armed_ok: "armed_ok s \<Longrightarrow> armed_ok (run s es)"
  by (induction es arbitrary: s) (simp_all add: step_armed_ok)

lemma loaded_armed_ok: "loaded s \<Longrightarrow> armed_ok s"
  by (simp add: loaded_def armed_ok_def)

text \<open>
  C6. In every state \<open>s\<close> the plugin reaches from its loaded state with a session active,
  an evaluator run at a time \<open>now < endsAt\<close>, with \<open>idleMs = now - lastInsertAt\<close> and
  \<open>overlayDelay = min 2000 idleCutoffMs\<close>, leaves the overlay hidden at level 0 when
  \<open>idleMs < overlayDelay\<close>, and otherwise visible at the level
  \<open>clamp (round (clamp ((idleMs - overlayDelay) / max 1 (idleCutoffMs - overlayDelay)) 0 1 * 10)) 0 10\<close>.
  The level is between 0 and 10 and does not decrease when \<open>idleMs\<close> grows. The level is
  the one the run stores; the overlay is the one of the state after the run as long as the
  session is still active then. The quotient is taken in the real numbers.
\<close>

theorem overlay_follows_idle_time:
  "(loaded start \<and> s = run start history \<and> active s \<and> session s = Some ss \<and> now < endsAt ss
      \<and> idleMs = now - lastInsertAt s \<and> overlayDelay = min 2000 (idleCutoffMs ss)
    \<longrightarrow> (\<exists>el'. overlayEl (tick_overlay idleMs ss s) = Some el'
            \<and> (idleMs < overlayDelay
                \<longrightarrow> Is_visible \<notin> set el' \<and> overlayLevel (tick_overlay idleMs ss s) = 0)
            \<and> (overlayDelay \<le> idleMs
                \<longrightarrow> Is_visible \<in> set el'
                  \<and> overlayLevel (tick_overlay idleMs ss s)
                      = clamp (round (clamp (real_of_int (idleMs - overlayDelay)
                           / real_of_int (max 1 (idleCutoffMs ss - overlayDelay))) 0 1 * 10)) 0 10))
        \<and> overlayLevel (ticker_update now s) = overlayLevel (tick_overlay idleMs ss s)
        \<and> (active (ticker_update now s)
            \<longrightarrow> overlayEl (ticker_update now s) = overlayEl (tick_overlay idleMs ss s))
        \<and> 0 \<le> overlayLevel (tick_overlay idleMs ss s)
        \<and> overlayLevel (tick_overlay idleMs ss s) \<le> 10)
   \<and> (loaded start \<and> s = run start history \<and> active s \<and> session s = Some ss \<and> idleMs \<le> idleMs'
      \<longrightarrow> overlayLevel (tick_overlay idleMs ss s) \<le> overlayLevel (tick_overlay idleMs' ss s))"
proof (intro conjI impI)
  assume a: "loaded start \<and> s = run start history \<and> active s \<and> session s = Some ss \<and> now < endsAt ss
      \<and> idleMs = now - lastInsertAt s \<and> overlayDelay = min 2000 (idleCutoffMs ss)"
  then have ld: "loaded start" and sr: "s = run start history" and act: "active s"
    and ses: "session s = Some ss" and ne: "now < endsAt ss"
    and idle: "idleMs = now - lastInsertAt s" and od: "overlayDelay = min 2000 (idleCutoffMs ss)"
    by blast+
  have "armed_ok s" unfolding sr by (intro run_armed_ok loaded_armed_ok ld)
  then obtain el where el: "overlayEl s = Some el"
    using act by (auto simp: armed_ok_def)
  have d: "overlayDelay = min OVERLAY_DELAY_MS (idleCutoffMs ss)"
    using od by (simp add: OVERLAY_DELAY_MS_def)
  obtain el' where el': "overlayEl (tick_overlay idleMs ss s) = Some el'"
    and vis: "Is_visible \<in> set el' \<longleftrightarrow> overlayDelay \<le> idleMs"
    using tick_overlay_visible[OF el, of idleMs ss] d by auto
  have lev: "overlayLevel (tick_overlay idleMs ss s) = overlay_level (idleCutoffMs ss) idleMs"
    using el by (rule tick_overlay_level)
  have low: "idleMs < overlayDelay \<Longrightarrow> overlayLevel (tick_overlay idleMs ss s) = 0"
    using lev d overlay_level_below_delay by simp
  have high: "overlayDelay \<le> idleMs \<Longrightarrow> overlayLevel (tick_overlay idleMs ss s)
      = clamp (round (clamp (real_of_int (idleMs - overlayDelay)
           / real_of_int (max 1 (idleCutoffMs ss - overlayDelay))) 0 1 * 10)) 0 10"
    using lev d by (simp add: overlay_level_def overlay_ratio_def Let_def)
  show "\<exists>el'. overlayEl (tick_overlay idleMs ss s) = Some el'
            \<and> (idleMs < overlayDelay
                \<longrightarrow> Is_visible \<notin> set el' \<and> overlayLevel (tick_overlay idleMs ss s) = 0)
            \<and> (overlayDelay \<le> idleMs
                \<longrightarrow> Is_visible \<in> set el'
                  \<and> overlayLevel (tick_overlay idleMs ss s)
                      = clamp (round (clamp (real_of_int (idleMs - overlayDelay)
                           / real_of_int (max 1 (idleCutoffMs ss - overlayDelay))) 0 1 * 10)) 0 10)"
    using el' vis low high by auto
  show "overlayLevel (ticker_update now s) = overlayLevel (tick_overlay idleMs ss s)"
    unfolding idle by (rule ticker_update_running(1)[OF act ses ne])
  show "overlayEl (ticker_update now s) = overlayEl (tick_overlay idleMs ss s)"
    if "active (ticker_update now s)"
    unfolding idle using that by (rule ticker_update_running(2)[OF act ses ne])
  show "0 \<le> overlayLevel (tick_overlay idleMs ss s)"
    and "overlayLevel (tick_overlay idleMs ss s) \<le> 10"
    using lev overlay_level_range by simp_all
next
  assume a: "loaded start \<and> s = run start history \<and> active s \<and> session s = Some ss \<and> idleMs \<le> idleMs'"
  then have ld: "loaded start" and sr: "s = run start history" and act: "active s"
    and le: "idleMs \<le> idleMs'"
    by blast+
  have "armed_ok s" unfolding sr by (intro run_armed_ok loaded_armed_ok ld)
  then obtain el where el: "overlayEl s = Some el"
    using act by (auto simp: armed_ok_def)
  show "overlayLevel (tick_overlay idleMs ss s) \<le> overlayLevel (tick_overlay idleMs' ss s)"
    using le by (simp add: tick_overlay_level[OF el] overlay_level_mono)
qed

theorem overlay_follows_idle_time_witness:
  "(\<exists>el'. overlayEl (tick_overlay 3000 example_session armed_example) = Some el'
       \<and> Is_visible \<in> set el')
   \<and> overlayLevel (tick_overlay 3000 example_session armed_example) = 3
   \<and> overlayLevel (ticker_update 4000 armed_example) = 3
   \<and> (\<exists>el'. overlayEl (tick_overlay 1000 example_session armed_example) = Some el'
       \<and> Is_visible \<notin> set el')
   \<and> overlayLevel (tick_overlay 1000 example_session armed_example) = 0
   \<and> overlayLevel (tick_overlay 1000 example_session armed_example)
       \<le> overlayLevel (tick_overlay 3000 example_session armed_example)"
proof -
  have ld: "loaded fresh" by code_simp
  have ar: "armed_example
      = run fresh [StartCommand (Some note_view), DurationPicked 0 1000 1000 (Some 5)]"
    by (fact armed_example_def)
  have ac: "active armed_example" by code_simp
  have se: "session armed_example = Some example_session" by code_simp
  have n1: "(4000::int) < endsAt example_session" by code_simp
  have i1: "(3000::int) = 4000 - lastInsertAt armed_example" by code_simp
  have n2: "(2000::int) < endsAt example_session" by code_simp
  have i2: "(1000::int) = 2000 - lastInsertAt armed_example" by code_simp
  have od: "(2000::int) = min 2000 (idleCutoffMs example_session)" by code_simp
  have le: "(1000::int) \<le> 3000" by simp
  note t = overlay_follows_idle_time
    [where start = fresh and s = armed_example and ss = example_session and overlayDelay = 2000
       and history = "[StartCommand (Some note_view), DurationPicked 0 1000 1000 (Some 5)]"]
  have h1: "loaded fresh \<and> armed_example
        = run fresh [StartCommand (Some note_view), DurationPicked 0 1000 1000 (Some 5)]
      \<and> active armed_example \<and> session armed_example = Some example_session
      \<and> 4000 < endsAt example_session \<and> 3000 = 4000 - lastInsertAt armed_example
      \<and> 2000 = min 2000 (idleCutoffMs example_session)"
    by (intro conjI ld ar ac se n1 i1 od)
  have h2: "loaded fresh \<and> armed_example
        = run fresh [StartCommand (Some note_view), DurationPicked 0 1000 1000 (Some 5)]
      \<and> active armed_example \<and> session armed_example = Some example_session
      \<and> 2000 < endsAt example_session \<and> 1000 = 2000 - lastInsertAt armed_example
      \<and> 2000 = min 2000 (idleCutoffMs example_session)"
    by (intro conjI ld ar ac se n2 i2 od)
  have h3: "loaded fresh \<and> armed_example
        = run fresh [StartCommand (Some note_view), DurationPicked 0 1000 1000 (Some 5)]
      \<and> active armed_example \<and> session armed_example = Some example_session
      \<and> (1000::int) \<le> 3000"
    by (intro conjI ld ar ac se le)
  note c1 = t [where now = 4000 and idleMs = 3000, THEN conjunct1, THEN mp, OF h1]
  note c2 = t [where now = 2000 and idleMs = 1000, THEN conjunct1, THEN mp, OF h2]
  note c3 = t [where idleMs = 1000 and idleMs' = 3000, THEN conjunct2, THEN mp, OF h3]
  have f: "clamp (round (clamp (real_of_int (3000 - 2000)
      / real_of_int (max 1 (idleCutoffMs example_session - 2000))) 0 1 * 10)) 0 10 = (3::int)"
    by code_simp
  from c1 obtain el' where e1: "overlayEl (tick_overlay 3000 example_session armed_example) = Some el'"
    and v1: "Is_visible \<in> set el'"
    and l1: "overlayLevel (tick_overlay 3000 example_session armed_example) = 3"
    using f by auto
  from c2 obtain el'' where e2: "overlayEl (tick_overlay 1000 example_session armed_example) = Some el''"
    and v2: "Is_visible \<notin> set el''"
    and l2: "overlayLevel (tick_overlay 1000 example_session armed_example) = 0"
    by auto
  have l3: "overlayLevel (ticker_update 4000 armed_example) = 3"
    using c1 l1 by simp
  show ?thesis
    using e1 v1 l1 e2 v2 l2 l3 c3 by blast
qed

section \<open>Typing before the cutoff\<close>






section \<open>The wipe\<close>

lemma tick_while_wiping:
  assumes "wiping s"
  shows "wiping (ticker_update now s) \<and> pending (ticker_update now s) = pending s
    \<and> io_calls (ticker_update now s) = io_calls s \<and> vault (ticker_update now s) = vault s"
proof -
  have h: "handleIdleTimeout x = x" if "wiping x" for x
    using that by (simp add: handleIdleTimeout_noop)
  have w: "wiping (tick_overlay i ss s\<lparr>statusEl := Some z\<rparr>)" for i ss z
    using assms by (simp add: tick_overlay_frame)
  show ?thesis
    using assms
    by (simp add: ticker_update_def Let_def tick_overlay_frame endSession_fields notify_def
        h[OF w] split: option.splits)
qed

lemma step_while_wiping:
  assumes "wiping s" "tick_or_edit e"
  shows "wiping (step s e) \<and> pending (step s e) = pending s
    \<and> io_calls (step s e) = io_calls s \<and> vault (step s e) = vault s"
proof (cases e)
  case (Tick now)
  then show ?thesis using tick_while_wiping[OF assms(1)] by simp
next
  case (Update now activeView upd)
  then show ?thesis using assms(1) by (simp add: updateListener_def split: option.splits)
next
  case (EditorChange now editorValue view)
  then show ?thesis using assms(1) by (simp add: editorChange_def Let_def split: option.splits)
qed (use assms in simp_all)

lemma run_while_wiping:
  "wiping s \<Longrightarrow> \<forall>e\<in>set es. tick_or_edit e \<Longrightarrow>
   wiping (run s es) \<and> pending (run s es) = pending s
    \<and> io_calls (run s es) = io_calls s \<and> vault (run s es) = vault s"
proof (induction es arbitrary: s)
  case Nil
  then show ?case by simp
next
  case (Cons e es)
  have 1: "wiping (step s e) \<and> pending (step s e) = pending s
    \<and> io_calls (step s e) = io_calls s \<and> vault (step s e) = vault s"
    using step_while_wiping[of s e] Cons.prems by simp
  have 2: "\<forall>e\<in>set es. tick_or_edit e" using Cons.prems by simp
  from Cons.IH[of "step s e"] 1 2 show ?case by simp
qed

lemma idle_cutoff_starts_wipe:
  assumes "active s" "session s = Some ss" "statusEl s = Some el" "\<not> wiping s"
    "now < endsAt ss" "idleCutoffMs ss \<le> now - lastInsertAt s"
    "vault s (targetPath ss) = Some (TFile raw)"
  shows "wiping (ticker_update now s)"
    "pending (ticker_update now s) = pending s @ [AwaitRead (targetPath ss)]"
    "io_calls (ticker_update now s) = io_calls s @ [VaultRead (targetPath ss)]"
    "vault (ticker_update now s) = vault s"
  using assms
  by (simp_all add: ticker_update_def Let_def tick_overlay_frame handleIdleTimeout_def
      wipeTargetNote_begin_def)

lemma read_answered:
  assumes "pending s = [AwaitRead fp]" "vault s fp = Some (TFile raw)"
  shows "pending (io_done 0 True s) = [AwaitModify fp (preservedFrontmatter raw)]"
    "io_calls (io_done 0 True s) = io_calls s @ [VaultModify fp (preservedFrontmatter raw)]"
    "wiping (io_done 0 True s) = wiping s" "vault (io_done 0 True s) = vault s"
  using assms by (simp_all add: io_done_def Let_def)

lemma write_answered:
  assumes "pending s = [AwaitModify fp content]"
  shows "pending (io_done 0 True s) = []" "io_calls (io_done 0 True s) = io_calls s"
    "\<not> wiping (io_done 0 True s)" "\<not> active (io_done 0 True s)"
    "session (io_done 0 True s) = None"
    "vault (io_done 0 True s) = (vault s)(fp \<mapsto> TFile content)"
  using assms
  by (auto simp: io_done_def Let_def wipe_done_fields wipe_failed_fields wipe_done_vault
      wipe_failed_vault dest!: refresh_views_frame split: option.splits)

lemma handleIdleTimeout_phase:
  assumes "pending s = []"
  shows "(pending (handleIdleTimeout s) = [] \<and> writes (handleIdleTimeout s) = writes s
          \<and> (active (handleIdleTimeout s) \<longrightarrow> active s))
       \<or> (wiping (handleIdleTimeout s) \<and> (\<exists>f. pending (handleIdleTimeout s) = [AwaitRead f])
          \<and> writes (handleIdleTimeout s) = writes s)"
  using assms
  by (auto simp: handleIdleTimeout_def Let_def wipe_done_fields writes_def split: option.splits)

lemma ticker_update_phase:
  assumes "pending s = []"
  shows "(pending (ticker_update now s) = [] \<and> writes (ticker_update now s) = writes s
          \<and> (active (ticker_update now s) \<longrightarrow> active s))
       \<or> (wiping (ticker_update now s) \<and> (\<exists>f. pending (ticker_update now s) = [AwaitRead f])
          \<and> writes (ticker_update now s) = writes s)"
proof -
  have p: "pending (tick_overlay i ss s\<lparr>statusEl := z\<rparr>) = []" for i ss z
    using assms by (simp add: tick_overlay_frame)
  have w: "writes (tick_overlay i ss s\<lparr>statusEl := z\<rparr>) = writes s" for i ss z
    by (simp add: writes_def tick_overlay_frame)
  have a: "active (tick_overlay i ss s\<lparr>statusEl := z\<rparr>) = active s" for i ss z
    by (simp add: tick_overlay_frame)
  note h = handleIdleTimeout_phase[OF p, unfolded w a]
  show ?thesis
    using assms h
    by (auto simp: ticker_update_def Let_def tick_overlay_frame endSession_fields notify_def
        writes_def split: option.splits)
qed

lemma io_done_phase_read:
  assumes "pending s = [AwaitRead f]" "wiping s"
  shows "(wiping (io_done k ok s) \<and> pending (io_done k ok s) = [AwaitRead f]
          \<and> writes (io_done k ok s) = writes s)
       \<or> (wiping (io_done k ok s) \<and> (\<exists>c. pending (io_done k ok s) = [AwaitModify f c])
          \<and> writes (io_done k ok s) = writes s + 1)
       \<or> (pending (io_done k ok s) = [] \<and> \<not> active (io_done k ok s)
          \<and> writes (io_done k ok s) = writes s)"
  using assms
  by (cases "k = 0")
     (auto simp: io_done_def Let_def wipe_failed_fields writes_def
       split: option.splits vault_entry.splits)

lemma io_done_phase_write:
  assumes "pending s = [AwaitModify f c]" "wiping s"
  shows "(wiping (io_done k ok s) \<and> pending (io_done k ok s) = [AwaitModify f c]
          \<and> writes (io_done k ok s) = writes s)
       \<or> (pending (io_done k ok s) = [] \<and> \<not> active (io_done k ok s)
          \<and> writes (io_done k ok s) = writes s)"
  using assms
  by (cases "k = 0")
     (auto simp: io_done_def Let_def wipe_failed_fields wipe_done_fields writes_def
       dest!: refresh_views_frame split: option.splits)

lemma step_wipe_phase:
  assumes "wipe_phase w0 s" "tick_edit_or_io e"
  shows "wipe_phase w0 (step s e)"
proof (cases e)
  case (Tick now)
  consider (idle) "pending s = []" "writes s = w0"
    | (busy) "wiping s" "pending s \<noteq> []"
    | (over) "pending s = []" "\<not> active s" "writes s = w0 + 1"
    using assms(1) by (auto simp: wipe_phase_def)
  then show ?thesis
  proof cases
    case idle
    then show ?thesis
      using ticker_update_phase[OF idle(1), of now] Tick by (auto simp: wipe_phase_def)
  next
    case busy
    then show ?thesis
      using tick_while_wiping[OF busy(1), of now] assms(1) Tick
      by (auto simp: wipe_phase_def writes_def)
  next
    case over
    then show ?thesis using Tick by (simp add: ticker_update_inactive wipe_phase_def)
  qed
next
  case (Update now activeView upd)
  then show ?thesis using assms(1) by (simp add: wipe_phase_def edit_frame writes_def)
next
  case (EditorChange now editorValue view)
  then show ?thesis using assms(1) by (simp add: wipe_phase_def edit_frame writes_def)
next
  case (IoDone k ok)
  consider (none) "pending s = []"
    | (reading) f where "wiping s" "pending s = [AwaitRead f]" "writes s = w0"
    | (writing) f c where "wiping s" "pending s = [AwaitModify f c]" "writes s = w0 + 1"
    using assms(1) by (auto simp: wipe_phase_def)
  then show ?thesis
  proof cases
    case none
    then have "io_done k ok s = s" by (simp add: io_done_def)
    then show ?thesis using assms(1) IoDone by simp
  next
    case reading
    then show ?thesis
      using io_done_phase_read[OF reading(2,1), of k ok] IoDone by (auto simp: wipe_phase_def)
  next
    case writing
    then show ?thesis
      using io_done_phase_write[OF writing(2,1), of k ok] IoDone by (auto simp: wipe_phase_def)
  qed
qed (use assms in simp_all)

lemma run_wipe_phase:
  "wipe_phase w0 s \<Longrightarrow> \<forall>e\<in>set es. tick_edit_or_io e \<Longrightarrow> wipe_phase w0 (run s es)"
  by (induction es arbitrary: s) (simp_all add: step_wipe_phase)

lemma at_most_one_write:
  assumes "pending s = []" "\<forall>e\<in>set es. tick_edit_or_io e"
  shows "writes (run s es) \<le> writes s + 1"
proof -
  have "wipe_phase (writes s) s" using assms(1) by (simp add: wipe_phase_def)
  then have "wipe_phase (writes s) (run s es)" using assms(2) by (rule run_wipe_phase)
  then show ?thesis by (auto simp: wipe_phase_def)
qed

text \<open>
  C2. A trigger of \<open>handleIdleTimeout\<close> that arrives when no session is active or while a
  wipe is in flight changes nothing. Otherwise the flag \<open>wiping\<close> is set in the step that
  issues the read. When an evaluator run of a reachable active session finds the idle
  cutoff reached before the end of the duration, the target file exists and the vault
  answers both calls, then whatever evaluator runs and edits arrive in between, the wipe
  issues one read and one write with the preserved block, the file holds that block at the
  end, and the session is ended with the flag cleared. With any answers of the vault, a
  session issues at most one write. In every reachable state at most one wipe is
  suspended, and only with the flag set.
\<close>

theorem single_flight_wipe:
  "((\<not> active s \<or> wiping s) \<longrightarrow> handleIdleTimeout s = s)
   \<and> (active s \<and> \<not> wiping s \<and> session s = Some ss
        \<and> vault s (targetPath ss) = Some (TFile raw)
      \<longrightarrow> handleIdleTimeout s
          = s\<lparr>wiping := True, io_calls := io_calls s @ [VaultRead (targetPath ss)],
              pending := pending s @ [AwaitRead (targetPath ss)]\<rparr>)
   \<and> (loaded start \<and> s = run start history \<and> active s \<and> session s = Some ss \<and> \<not> wiping s
        \<and> now < endsAt ss \<and> idleCutoffMs ss \<le> now - lastInsertAt s
        \<and> vault s (targetPath ss) = Some (TFile raw)
        \<and> (\<forall>e\<in>set es. tick_or_edit e) \<and> (\<forall>e\<in>set es'. tick_or_edit e)
        \<and> reading = run s (Tick now # es)
        \<and> writing = run reading (IoDone 0 True # es')
        \<and> finished = step writing (IoDone 0 True)
      \<longrightarrow> wiping reading \<and> pending reading = [AwaitRead (targetPath ss)]
          \<and> io_calls reading = io_calls s @ [VaultRead (targetPath ss)]
          \<and> wiping writing
          \<and> pending writing = [AwaitModify (targetPath ss) (preservedFrontmatter raw)]
          \<and> io_calls writing = io_calls s
               @ [VaultRead (targetPath ss),
                  VaultModify (targetPath ss) (preservedFrontmatter raw)]
          \<and> io_calls finished = io_calls writing
          \<and> writes finished = writes s + 1
          \<and> vault finished (targetPath ss) = Some (TFile (preservedFrontmatter raw))
          \<and> \<not> wiping finished \<and> \<not> active finished \<and> session finished = None
          \<and> pending finished = [])
   \<and> (pending s = [] \<and> (\<forall>e\<in>set es. tick_edit_or_io e) \<longrightarrow> writes (run s es) \<le> writes s + 1)
   \<and> (loaded start \<longrightarrow> single_flight (run start history))"
proof (intro conjI impI)
  assume "\<not> active s \<or> wiping s"
  then show "handleIdleTimeout s = s" by (rule handleIdleTimeout_noop)
next
  assume "active s \<and> \<not> wiping s \<and> session s = Some ss
        \<and> vault s (targetPath ss) = Some (TFile raw)"
  then show "handleIdleTimeout s
          = s\<lparr>wiping := True, io_calls := io_calls s @ [VaultRead (targetPath ss)],
              pending := pending s @ [AwaitRead (targetPath ss)]\<rparr>"
    by (simp add: handleIdleTimeout_def wipeTargetNote_begin_def)
next
  assume "pending s = [] \<and> (\<forall>e\<in>set es. tick_edit_or_io e)"
  then show "writes (run s es) \<le> writes s + 1" using at_most_one_write[of s es] by simp
next
  assume "loaded start"
  then show "single_flight (run start history)" by (intro run_single_flight loaded_single_flight)
next
  assume a: "loaded start \<and> s = run start history \<and> active s \<and> session s = Some ss \<and> \<not> wiping s
        \<and> now < endsAt ss \<and> idleCutoffMs ss \<le> now - lastInsertAt s
        \<and> vault s (targetPath ss) = Some (TFile raw)
        \<and> (\<forall>e\<in>set es. tick_or_edit e) \<and> (\<forall>e\<in>set es'. tick_or_edit e)
        \<and> reading = run s (Tick now # es)
        \<and> writing = run reading (IoDone 0 True # es')
        \<and> finished = step writing (IoDone 0 True)"
  let ?p = "targetPath ss"
  let ?t = "ticker_update now s"
  from a have ld: "loaded start" and sr: "s = run start history" and act: "active s"
    and ses: "session s = Some ss" and nw: "\<not> wiping s" and ne: "now < endsAt ss"
    and idle: "idleCutoffMs ss \<le> now - lastInsertAt s"
    and vs: "vault s (targetPath ss) = Some (TFile raw)"
    and es: "\<forall>e\<in>set es. tick_or_edit e" and es': "\<forall>e\<in>set es'. tick_or_edit e"
    and rdef: "reading = run s (Tick now # es)"
    and wdef: "writing = run reading (IoDone 0 True # es')"
    and fdef: "finished = step writing (IoDone 0 True)"
    by blast+
  have "armed_ok s" unfolding sr by (intro run_armed_ok loaded_armed_ok ld)
  then obtain el where el: "statusEl s = Some el"
    using act by (auto simp: armed_ok_def)
  have "single_flight s" unfolding sr by (intro run_single_flight loaded_single_flight ld)
  then have p0: "pending s = []" using nw by (auto simp: single_flight_def)
  have t: "wiping ?t" "pending ?t = [AwaitRead ?p]" "io_calls ?t = io_calls s @ [VaultRead ?p]"
    "vault ?t = vault s"
    using idle_cutoff_starts_wipe[OF act ses el nw ne idle vs] p0 by simp_all
  have r: "reading = run ?t es" using rdef by simp
  have rd: "wiping reading" "pending reading = [AwaitRead ?p]"
    "io_calls reading = io_calls s @ [VaultRead ?p]" "vault reading = vault s"
    using run_while_wiping[OF t(1) es] t r by simp_all
  have vr: "vault reading ?p = Some (TFile raw)" using rd(4) vs by simp
  let ?w = "io_done 0 True reading"
  have w0: "pending ?w = [AwaitModify ?p (preservedFrontmatter raw)]"
    "io_calls ?w = io_calls reading @ [VaultModify ?p (preservedFrontmatter raw)]"
    "wiping ?w" "vault ?w = vault reading"
    using read_answered[OF rd(2) vr] rd(1) by simp_all
  have w: "writing = run ?w es'" using wdef by simp
  have wr: "wiping writing" "pending writing = [AwaitModify ?p (preservedFrontmatter raw)]"
    "io_calls writing = io_calls s @ [VaultRead ?p, VaultModify ?p (preservedFrontmatter raw)]"
    using run_while_wiping[OF w0(3) es'] w0 w rd(3) by simp_all
  have d: "finished = io_done 0 True writing" using fdef by simp
  note fin = write_answered[OF wr(2), folded d]
  have wd: "writes finished = writes s + 1"
    using writes_append[of finished s "[VaultRead ?p, VaultModify ?p (preservedFrontmatter raw)]"]
      fin(2) wr(3) by simp
  show "wiping reading" "pending reading = [AwaitRead ?p]"
    "io_calls reading = io_calls s @ [VaultRead ?p]" by (fact rd)+
  show "wiping writing" "pending writing = [AwaitModify ?p (preservedFrontmatter raw)]"
    "io_calls writing = io_calls s @ [VaultRead ?p, VaultModify ?p (preservedFrontmatter raw)]"
    by (fact wr)+
  show "io_calls finished = io_calls writing" "writes finished = writes s + 1"
    "\<not> wiping finished" "\<not> active finished" "session finished = None" "pending finished = []"
    using fin wd by simp_all
  show "vault finished ?p = Some (TFile (preservedFrontmatter raw))"
    using fin(6) by simp
qed

theorem single_flight_wipe_witness:
  "handleIdleTimeout fresh = fresh
   \<and> handleIdleTimeout (run armed_example [Tick 6000]) = run armed_example [Tick 6000]
   \<and> handleIdleTimeout armed_example
       = armed_example\<lparr>wiping := True,
           io_calls := io_calls armed_example @ [VaultRead (targetPath example_session)],
           pending := pending armed_example @ [AwaitRead (targetPath example_session)]\<rparr>
   \<and> writes (step (run (run armed_example (Tick 6000 # duplicate_triggers))
                (IoDone 0 True # late_events)) (IoDone 0 True))
       = writes armed_example + 1
   \<and> vault (step (run (run armed_example (Tick 6000 # duplicate_triggers))
                (IoDone 0 True # late_events)) (IoDone 0 True)) (targetPath example_session)
       = Some (TFile (preservedFrontmatter note_text))
   \<and> \<not> wiping (step (run (run armed_example (Tick 6000 # duplicate_triggers))
                (IoDone 0 True # late_events)) (IoDone 0 True))
   \<and> \<not> active (step (run (run armed_example (Tick 6000 # duplicate_triggers))
                (IoDone 0 True # late_events)) (IoDone 0 True))
   \<and> writes (run armed_example [Tick 6000, IoDone 0 False, Tick 6100, IoDone 0 True])
       \<le> writes armed_example + 1
   \<and> single_flight
       (run fresh [StartCommand (Some note_view), DurationPicked 0 1000 1000 (Some 5)])"
proof -
  let ?r = "run armed_example (Tick 6000 # duplicate_triggers)"
  let ?w = "run ?r (IoDone 0 True # late_events)"
  let ?f = "step ?w (IoDone 0 True)"
  have ld: "loaded fresh" by code_simp
  have ar: "armed_example
      = run fresh [StartCommand (Some note_view), DurationPicked 0 1000 1000 (Some 5)]"
    by (fact armed_example_def)
  have ac: "active armed_example" by code_simp
  have se: "session armed_example = Some example_session" by code_simp
  have nw: "\<not> wiping armed_example" by code_simp
  have ne: "(6000::int) < endsAt example_session" by code_simp
  have id: "idleCutoffMs example_session \<le> 6000 - lastInsertAt armed_example" by code_simp
  have va: "vault armed_example (targetPath example_session) = Some (TFile note_text)"
    by code_simp
  have e1: "\<forall>e\<in>set duplicate_triggers. tick_or_edit e" by code_simp
  have e2: "\<forall>e\<in>set late_events. tick_or_edit e" by code_simp
  have n1: "\<not> active fresh \<or> wiping fresh" by code_simp
  have n2: "\<not> active (run armed_example [Tick 6000]) \<or> wiping (run armed_example [Tick 6000])"
    by code_simp
  have p0: "pending armed_example = []" by code_simp
  have e3: "\<forall>e\<in>set [Tick 6000, IoDone 0 False, Tick 6100, IoDone 0 True]. tick_edit_or_io e"
    by code_simp
  have h2: "active armed_example \<and> \<not> wiping armed_example
      \<and> session armed_example = Some example_session
      \<and> vault armed_example (targetPath example_session) = Some (TFile note_text)"
    by (intro conjI ac nw se va)
  have h3: "loaded fresh
      \<and> armed_example
          = run fresh [StartCommand (Some note_view), DurationPicked 0 1000 1000 (Some 5)]
      \<and> active armed_example \<and> session armed_example = Some example_session
      \<and> \<not> wiping armed_example \<and> 6000 < endsAt example_session
      \<and> idleCutoffMs example_session \<le> 6000 - lastInsertAt armed_example
      \<and> vault armed_example (targetPath example_session) = Some (TFile note_text)
      \<and> (\<forall>e\<in>set duplicate_triggers. tick_or_edit e) \<and> (\<forall>e\<in>set late_events. tick_or_edit e)
      \<and> ?r = ?r \<and> ?w = ?w \<and> ?f = ?f"
    by (intro conjI ld ar ac se nw ne id va e1 e2 refl)
  have h4: "pending armed_example = []
      \<and> (\<forall>e\<in>set [Tick 6000, IoDone 0 False, Tick 6100, IoDone 0 True]. tick_edit_or_io e)"
    by (intro conjI p0 e3)
  note t = single_flight_wipe
  note c1 = t [where s = fresh, THEN conjunct1, THEN mp, OF n1]
  note c2 = t [where s = "run armed_example [Tick 6000]", THEN conjunct1, THEN mp, OF n2]
  note c3 = t [where s = armed_example and ss = example_session and raw = note_text,
      THEN conjunct2, THEN conjunct1, THEN mp, OF h2]
  note c4 = t [where start = fresh and s = armed_example and ss = example_session
        and history = "[StartCommand (Some note_view), DurationPicked 0 1000 1000 (Some 5)]"
        and now = 6000 and raw = note_text and es = duplicate_triggers and es' = late_events
        and reading = ?r and writing = ?w and finished = ?f,
      THEN conjunct2, THEN conjunct2, THEN conjunct1, THEN mp, OF h3]
  note c5 = t [where s = armed_example
        and es = "[Tick 6000, IoDone 0 False, Tick 6100, IoDone 0 True]",
      THEN conjunct2, THEN conjunct2, THEN conjunct2, THEN conjunct1, THEN mp, OF h4]
  note c6 = t [where start = fresh
        and history = "[StartCommand (Some note_view), DurationPicked 0 1000 1000 (Some 5)]",
      THEN conjunct2, THEN conjunct2, THEN conjunct2, THEN conjunct2, THEN mp, OF ld]
  have d1: "writes ?f = writes armed_example + 1"
    and d2: "vault ?f (targetPath example_session) = Some (TFile (preservedFrontmatter note_text))"
    and d3: "\<not> wiping ?f" and d4: "\<not> active ?f"
    using c4 by blast+
  show ?thesis by (intro conjI c1 c2 c3 d1 d2 d3 d4 c5 c6)
qed

text \<open>
  C5. When the read or the write of a wipe throws, the error is logged, the user gets the
  notice of a failed wipe, and the session is ended as after a successful wipe: \<open>active\<close>
  is false, the session object, the ticker, the status bar item and the overlay are gone,
  and the flag \<open>wiping\<close> is cleared.
\<close>

theorem failed_wipe_still_ends_session:
  "(k < length (pending s) \<and> s' = io_done k False s
    \<longrightarrow> \<not> active s' \<and> session s' = None \<and> targetFile s' = None \<and> idleTicker s' = None
        \<and> statusEl s' = None \<and> overlayEl s' = None \<and> \<not> noSelect s' \<and> \<not> wiping s'
        \<and> notices s' = notices s @ [Failed_to_wipe]
        \<and> console s' = console s @ [Console_error]
        \<and> io_calls s' = io_calls s \<and> vault s' = vault s
        \<and> pending s' = take k (pending s) @ drop (Suc k) (pending s))
   \<and> (k < length (pending s) \<and> pending s ! k = AwaitModify fp content \<and> s' = io_done k True s
    \<longrightarrow> \<not> active s' \<and> session s' = None \<and> targetFile s' = None \<and> idleTicker s' = None
        \<and> statusEl s' = None \<and> overlayEl s' = None \<and> \<not> noSelect s' \<and> \<not> wiping s')"
  by (auto simp: io_done_def Let_def wipe_failed_fields wipe_done_fields wipe_failed_vault
      split: wipe_task.splits option.splits)

theorem failed_wipe_still_ends_session_witness:
  "(\<not> active (io_done 0 False (run armed_example [Tick 6000]))
    \<and> session (io_done 0 False (run armed_example [Tick 6000])) = None
    \<and> targetFile (io_done 0 False (run armed_example [Tick 6000])) = None
    \<and> idleTicker (io_done 0 False (run armed_example [Tick 6000])) = None
    \<and> statusEl (io_done 0 False (run armed_example [Tick 6000])) = None
    \<and> overlayEl (io_done 0 False (run armed_example [Tick 6000])) = None
    \<and> \<not> noSelect (io_done 0 False (run armed_example [Tick 6000]))
    \<and> \<not> wiping (io_done 0 False (run armed_example [Tick 6000]))
    \<and> notices (io_done 0 False (run armed_example [Tick 6000]))
        = notices (run armed_example [Tick 6000]) @ [Failed_to_wipe]
    \<and> console (io_done 0 False (run armed_example [Tick 6000]))
        = console (run armed_example [Tick 6000]) @ [Console_error]
    \<and> io_calls (io_done 0 False (run armed_example [Tick 6000]))
        = io_calls (run armed_example [Tick 6000])
    \<and> vault (io_done 0 False (run armed_example [Tick 6000]))
        = vault (run armed_example [Tick 6000])
    \<and> pending (io_done 0 False (run armed_example [Tick 6000]))
        = take 0 (pending (run armed_example [Tick 6000]))
          @ drop (Suc 0) (pending (run armed_example [Tick 6000])))
   \<and> (\<not> active (io_done 0 True (run armed_example [Tick 6000, IoDone 0 True]))
    \<and> session (io_done 0 True (run armed_example [Tick 6000, IoDone 0 True])) = None
    \<and> targetFile (io_done 0 True (run armed_example [Tick 6000, IoDone 0 True])) = None
    \<and> idleTicker (io_done 0 True (run armed_example [Tick 6000, IoDone 0 True])) = None
    \<and> statusEl (io_done 0 True (run armed_example [Tick 6000, IoDone 0 True])) = None
    \<and> overlayEl (io_done 0 True (run armed_example [Tick 6000, IoDone 0 True])) = None
    \<and> \<not> noSelect (io_done 0 True (run armed_example [Tick 6000, IoDone 0 True]))
    \<and> \<not> wiping (io_done 0 True (run armed_example [Tick 6000, IoDone 0 True])))"
proof -
  have h1: "0 < length (pending (run armed_example [Tick 6000]))" by code_simp
  have h: "0 < length (pending (run armed_example [Tick 6000]))
     \<and> io_done 0 False (run armed_example [Tick 6000])
        = io_done 0 False (run armed_example [Tick 6000])"
    by (intro conjI h1 refl)
  have g1: "0 < length (pending (run armed_example [Tick 6000, IoDone 0 True]))" by code_simp
  have g2: "pending (run armed_example [Tick 6000, IoDone 0 True]) ! 0
      = AwaitModify ''note.md'' (preservedFrontmatter note_text)"
    by code_simp
  have g: "0 < length (pending (run armed_example [Tick 6000, IoDone 0 True]))
     \<and> pending (run armed_example [Tick 6000, IoDone 0 True]) ! 0
        = AwaitModify ''note.md'' (preservedFrontmatter note_text)
     \<and> io_done 0 True (run armed_example [Tick 6000, IoDone 0 True])
        = io_done 0 True (run armed_example [Tick 6000, IoDone 0 True])"
    by (intro conjI g1 g2 refl)
  note failed = failed_wipe_still_ends_session
    [where s = "run armed_example [Tick 6000]" and k = 0
       and s' = "io_done 0 False (run armed_example [Tick 6000])",
     THEN conjunct1, THEN mp, OF h]
  note wiped = failed_wipe_still_ends_session
    [where s = "run armed_example [Tick 6000, IoDone 0 True]" and k = 0
       and fp = "''note.md''" and content = "preservedFrontmatter note_text"
       and s' = "io_done 0 True (run armed_example [Tick 6000, IoDone 0 True])",
     THEN conjunct2, THEN mp, OF g]
  show ?thesis by (rule conjI [OF failed wiped])
qed

section \<open>Emissions of the overlay level\<close>

lemma setOverlayProgress_same:
  "clamp (round (p * 10)) 0 10 = overlayLevel s \<Longrightarrow> setOverlayProgress p s = s"
  by (simp add: setOverlayProgress_def Let_def split: option.splits)

lemma setOverlayProgress_changes:
  "setOverlayProgress p s \<noteq> s \<longleftrightarrow>
     overlayEl s \<noteq> None \<and> clamp (round (p * 10)) 0 10 \<noteq> overlayLevel s"
proof (cases "overlayEl s")
  case None
  then show ?thesis by (simp add: setOverlayProgress_def)
next
  case (Some el)
  show ?thesis
  proof (cases "clamp (round (p * 10)) 0 10 = overlayLevel s")
    case True
    then show ?thesis by (simp add: setOverlayProgress_same)
  next
    case False
    have "overlayLevel (setOverlayProgress p s) = clamp (round (p * 10)) 0 10"
      using Some by (rule setOverlayProgress_level)
    then have "setOverlayProgress p s \<noteq> s" using False by auto
    then show ?thesis using Some False by simp
  qed
qed

lemma tick_overlay_no_overlay: "overlayEl s = None \<Longrightarrow> tick_overlay i ss s = s"
  by (simp add: tick_overlay_def Let_def setOverlayProgress_def setOverlayVisible_def)

lemma tick_not_live:
  assumes "\<not> overlay_live s"
  shows "\<not> overlay_live (ticker_update now s)"
    and "overlayLevel (ticker_update now s) = overlayLevel s"
proof -
  show "overlayLevel (ticker_update now s) = overlayLevel s"
    using assms
    by (auto simp: overlay_live_def ticker_update_def Let_def endSession_fields notify_def
        tick_overlay_no_overlay handleIdleTimeout_overlayLevel split: option.splits)
  show "\<not> overlay_live (ticker_update now s)"
    using assms
    by (auto simp: overlay_live_def ticker_update_def Let_def endSession_fields notify_def
        tick_overlay_no_overlay handleIdleTimeout_overlay_None split: option.splits if_splits)
qed

lemma emissions_not_live: "\<not> overlay_live s \<Longrightarrow> emissions s ticks = 0"
  by (induction ticks arbitrary: s) (simp_all add: tick_not_live)

lemma tick_expired:
  assumes "active s" "session s = Some ss" "endsAt ss \<le> now"
  shows "\<not> overlay_live (ticker_update now s)"
    and "overlayLevel (ticker_update now s) = overlayLevel s"
  using assms by (simp_all add: overlay_live_def ticker_update_def endSession_fields notify_def)

lemma tick_live:
  assumes "active s" "session s = Some ss" "overlayEl s = Some el" "now < endsAt ss"
  shows "overlayLevel (ticker_update now s) = overlay_level (idleCutoffMs ss) (now - lastInsertAt s)"
    and "overlay_live (ticker_update now s) \<Longrightarrow>
         active (ticker_update now s) \<and> session (ticker_update now s) = Some ss
         \<and> lastInsertAt (ticker_update now s) = lastInsertAt s
         \<and> overlayEl (ticker_update now s) \<noteq> None"
proof -
  show "overlayLevel (ticker_update now s) = overlay_level (idleCutoffMs ss) (now - lastInsertAt s)"
    using ticker_update_running(1)[OF assms(1,2,4)] tick_overlay_level[OF assms(3)] by simp
  assume l: "overlay_live (ticker_update now s)"
  then have a: "active (ticker_update now s)" by (simp add: overlay_live_def)
  have "session (ticker_update now s) = Some ss \<and> lastInsertAt (ticker_update now s) = lastInsertAt s"
    using assms a
    by (auto simp: ticker_update_def Let_def tick_overlay_frame handleIdleTimeout_session
        split: option.splits if_splits)
  then show "active (ticker_update now s) \<and> session (ticker_update now s) = Some ss
         \<and> lastInsertAt (ticker_update now s) = lastInsertAt s
         \<and> overlayEl (ticker_update now s) \<noteq> None"
    using a l by (simp add: overlay_live_def)
qed

lemma emissions_bound:
  "sorted ticks \<Longrightarrow> active s \<Longrightarrow> session s = Some ss \<Longrightarrow> overlayEl s = Some el \<Longrightarrow>
   \<forall>t\<in>set ticks. overlayLevel s \<le> overlay_level (idleCutoffMs ss) (t - lastInsertAt s) \<Longrightarrow>
   emissions s ticks \<le> nat (10 - overlayLevel s)"
proof (induction ticks arbitrary: s el)
  case Nil
  then show ?case by simp
next
  case (Cons now ticks)
  let ?s = "ticker_update now s"
  let ?L = "\<lambda>t. overlay_level (idleCutoffMs ss) (t - lastInsertAt s)"
  show ?case
  proof (cases "now < endsAt ss")
    case False
    then have "\<not> overlay_live ?s" "overlayLevel ?s = overlayLevel s"
      using tick_expired[OF Cons.prems(2,3), of now] by simp_all
    then show ?thesis by (simp add: emissions_not_live)
  next
    case True
    have lev: "overlayLevel ?s = ?L now"
      using tick_live(1)[OF Cons.prems(2,3,4) True] .
    have le: "overlayLevel s \<le> ?L now" using Cons.prems(5) by simp
    have hi: "?L now \<le> 10" using overlay_level_range by simp
    show ?thesis
    proof (cases "overlay_live ?s")
      case False
      then have "emissions ?s ticks = 0" by (rule emissions_not_live)
      then show ?thesis using lev le hi by (auto simp: Suc_le_eq)
    next
      case live: True
      note k = tick_live(2)[OF Cons.prems(2,3,4) True live]
      obtain el' where el': "overlayEl ?s = Some el'" using k by auto
      have srt: "sorted ticks" using Cons.prems(1) by simp
      have "\<forall>t\<in>set ticks. overlayLevel ?s \<le> overlay_level (idleCutoffMs ss) (t - lastInsertAt ?s)"
      proof
        fix t assume "t \<in> set ticks"
        then have "now \<le> t" using Cons.prems(1) by simp
        then have "?L now \<le> ?L t" by (intro overlay_level_mono) simp
        then show "overlayLevel ?s \<le> overlay_level (idleCutoffMs ss) (t - lastInsertAt ?s)"
          using lev k by simp
      qed
      from Cons.IH[OF srt _ _ el' this] k
      have "emissions ?s ticks \<le> nat (10 - overlayLevel ?s)" by simp
      then show ?thesis using lev le hi by auto
    qed
  qed
qed

lemma emissions_from_zero:
  assumes "sorted ticks" "overlayLevel s = 0"
  shows "emissions s ticks \<le> 10"
proof (cases "overlay_live s")
  case False
  then show ?thesis by (simp add: emissions_not_live)
next
  case True
  then obtain ss el where l: "active s" "session s = Some ss" "overlayEl s = Some el"
    by (auto simp: overlay_live_def)
  have "\<forall>t\<in>set ticks. overlayLevel s \<le> overlay_level (idleCutoffMs ss) (t - lastInsertAt s)"
    using assms(2) overlay_level_range by simp
  from emissions_bound[OF assms(1) l this] show ?thesis using assms(2) by simp
qed

lemma emissions_any:
  assumes "sorted ticks"
  shows "emissions s ticks \<le> 11"
proof (cases ticks)
  case Nil
  then show ?thesis by simp
next
  case (Cons now rest)
  let ?s = "ticker_update now s"
  have "emissions ?s rest \<le> 10"
  proof (cases "overlay_live ?s")
    case False
    then show ?thesis by (simp add: emissions_not_live)
  next
    case True
    then have ls: "overlay_live s" using tick_not_live(1) by blast
    then obtain ss el where l: "active s" "session s = Some ss" "overlayEl s = Some el"
      by (auto simp: overlay_live_def)
    have ne: "now < endsAt ss" using tick_expired(1)[OF l(1,2), of now] True by force
    have lev: "overlayLevel ?s = overlay_level (idleCutoffMs ss) (now - lastInsertAt s)"
      using tick_live(1)[OF l ne] .
    note k = tick_live(2)[OF l ne True]
    obtain el' where el': "overlayEl ?s = Some el'" using k by auto
    have srt: "sorted rest" using assms Cons by simp
    have "\<forall>t\<in>set rest. overlayLevel ?s \<le> overlay_level (idleCutoffMs ss) (t - lastInsertAt ?s)"
    proof
      fix t assume "t \<in> set rest"
      then have "now \<le> t" using assms Cons by simp
      then have "overlay_level (idleCutoffMs ss) (now - lastInsertAt s)
          \<le> overlay_level (idleCutoffMs ss) (t - lastInsertAt s)"
        by (intro overlay_level_mono) simp
      then show "overlayLevel ?s \<le> overlay_level (idleCutoffMs ss) (t - lastInsertAt ?s)"
        using lev k by simp
    qed
    from emissions_bound[OF srt _ _ el' this] k
    have "emissions ?s rest \<le> nat (10 - overlayLevel ?s)" by simp
    moreover have "0 \<le> overlayLevel ?s" using lev overlay_level_range by simp
    ultimately show ?thesis by simp
  qed
  then show ?thesis using Cons by simp
qed

text \<open>
  C9, as stated, fails on a streak that starts with a warning on the screen: the first
  evaluator run after the insertion puts the level back to 0, and the ten levels up to 10
  follow, eleven emissions in one idle streak.
\<close>

theorem overlay_streak_emits_eleven:
  "sorted streak_ticks \<and> overlayLevel streak_example = 3
   \<and> emissions streak_example streak_ticks = 11
   \<and> \<not> emissions streak_example streak_ticks \<le> 10"
  by code_simp

text \<open>
  C9, amended. \<open>setOverlayProgress\<close> changes nothing when its argument quantizes to the
  stored level, and whenever it changes the state it changes the stored level. Over
  evaluator runs at non-decreasing times with no insertion in between, the level is
  emitted at most 11 times, and at most 10 times when the stored level is 0 at the start
  of the streak.
\<close>

theorem overlay_emissions_bounded:
  "(clamp (round (p * 10)) 0 10 = overlayLevel s \<longrightarrow> setOverlayProgress p s = s)
   \<and> (setOverlayProgress p s \<noteq> s
      \<longrightarrow> overlayLevel (setOverlayProgress p s) \<noteq> overlayLevel s)
   \<and> (sorted ticks \<longrightarrow> emissions s ticks \<le> 11)
   \<and> (sorted ticks \<and> overlayLevel s = 0 \<longrightarrow> emissions s ticks \<le> 10)"
proof (intro conjI impI)
  assume "setOverlayProgress p s \<noteq> s"
  then obtain el where "overlayEl s = Some el" "clamp (round (p * 10)) 0 10 \<noteq> overlayLevel s"
    using setOverlayProgress_changes[of p s] by auto
  then show "overlayLevel (setOverlayProgress p s) \<noteq> overlayLevel s"
    by (simp add: setOverlayProgress_level)
qed (simp_all add: setOverlayProgress_same emissions_any emissions_from_zero)

theorem overlay_emissions_bounded_witness:
  "setOverlayProgress (1 / 3) streak_example = streak_example
   \<and> overlayLevel (setOverlayProgress (1 / 2) streak_example) \<noteq> overlayLevel streak_example
   \<and> emissions streak_example streak_ticks \<le> 11
   \<and> emissions armed_example [2000, 3300, 4000, 5000, 5900] \<le> 10"
proof -
  have h1: "clamp (round ((1 / 3 :: real) * 10)) 0 10 = overlayLevel streak_example" by code_simp
  have lv: "overlayLevel (setOverlayProgress (1 / 2) streak_example) \<noteq> overlayLevel streak_example"
    by code_simp
  have h2: "setOverlayProgress (1 / 2) streak_example \<noteq> streak_example"
    using lv by (rule contrapos_nn) (erule arg_cong)
  have h3: "sorted streak_ticks" by code_simp
  have s4: "sorted [2000, 3300, 4000, 5000, 5900 :: int]" by simp
  have l4: "overlayLevel armed_example = 0" by code_simp
  have h4: "sorted [2000, 3300, 4000, 5000, 5900 :: int] \<and> overlayLevel armed_example = 0"
    by (intro conjI s4 l4)
  note t = overlay_emissions_bounded
  show ?thesis
    by (intro conjI
        t [where p = "1 / 3" and s = streak_example, THEN conjunct1, THEN mp, OF h1]
        t [where p = "1 / 2" and s = streak_example, THEN conjunct2, THEN conjunct1, THEN mp, OF h2]
        t [where s = streak_example and ticks = streak_ticks,
           THEN conjunct2, THEN conjunct2, THEN conjunct1, THEN mp, OF h3]
        t [where s = armed_example and ticks = "[2000, 3300, 4000, 5000, 5900]",
           THEN conjunct2, THEN conjunct2, THEN conjunct2, THEN mp, OF h4])
qed

end
